theory Spec2Isabelle
  imports Main "HOL-Library.List_Lexorder" "HOL-Library.Char_ord"
begin

section \<open>Errors, the file system and the environment\<close>

text \<open>
  Go errors are values. The sentinel errors of package \<open>secure\<close> and the two of package
  \<open>os\<close> that the code tests with \<open>errors.Is\<close> are constructors of their own; any other
  error of the operating system or of a library is \<open>ErrOther\<close> with a tag.
  \<open>ErrReadDataFile\<close> and \<open>ErrSaveDataFile\<close> are the values of
  \<open>fmt.Errorf("s.ReadDataFile: %v", errorList)\<close> and
  \<open>fmt.Errorf("s.SaveDataFile: %v", errorList)\<close>; \<open>ErrWrap\<close> is
  \<open>fmt.Errorf("%w %v", errors[0], errors[1:])\<close>, which wraps its first argument.
\<close>

datatype error =
    ErrNotExist
  | ErrExist
  | ErrOther string
  | ErrRolledBack
  | ErrAlreadyRolledBack
  | ErrAlreadyCommitted
  | ErrReadDataFile "error list"
  | ErrSaveDataFile "error list"
  | ErrWrap error "error list"

text \<open>\<open>errors.Is(err, os.ErrNotExist)\<close> and \<open>errors.Is(err, os.ErrExist)\<close>: only \<open>%w\<close> wraps.\<close>

fun isNotExist :: "error \<Rightarrow> bool" where
  "isNotExist ErrNotExist = True"
| "isNotExist (ErrWrap e es) = isNotExist e"
| "isNotExist e = False"

fun isExist :: "error \<Rightarrow> bool" where
  "isExist ErrExist = True"
| "isExist (ErrWrap e es) = isExist e"
| "isExist e = False"

text \<open>
  The storage directory is one flat map from paths (relative to \<open>s.dir\<close>) to file
  contents; bytes are \<open>char\<close>s. The trace lists, in order, the changes made to the disk,
  so that claims about the order of operations can be stated; \<open>WorkerTook w f\<close> records
  that download worker \<open>w\<close> received the item of file \<open>f\<close>.
\<close>

type_synonym bytes = string

datatype event =
    Created string
  | Removed string
  | Renamed string string
  | BackupCreated "string list"
  | BackupRestored "string list"
  | BackupDeleted "string list"
  | WorkerTook nat string

text \<open>
  A backup record: the names it covers and a copy of each original envelope that was on
  disk when it was taken.
\<close>

record backup =
  bnames :: "string list"
  originals :: "(string \<times> bytes) list"

record fsys =
  files :: "string \<rightharpoonup> bytes"
  backups :: "backup list"
  trace :: "event list"

definition logEvent :: "event \<Rightarrow> fsys \<Rightarrow> fsys" where
  "logEvent e s = s\<lparr>trace := trace s @ [e]\<rparr>"

text \<open>
  The environment decides what the program does not: whether a system call that changes
  the disk fails for a reason of the operating system (\<open>fault\<close>, which may depend on all
  that happened before), whether a lock file has outlived the acquirer's deadline at a
  given attempt (\<open>stale\<close>: \<open>time.Since(fi.ModTime()) > deadline\<close>), what
  \<open>time.Now().UnixNano()\<close> reads (\<open>nanos\<close>), in which order the results of goroutines
  that run in parallel arrive (\<open>choices\<close>, read by \<open>arrange\<close> below), and which of the
  download workers receives the next item of the queue (\<open>taker\<close>).
\<close>

datatype sysop =
    MkParent | OpenExcl | CloseFile | Remove | Rename
  | WriteKey | StartWriter | NewGzip | Encode | GzClose | WClose
  | MkBackup | MkdirAll | Copy

record env =
  fault :: "event list \<Rightarrow> sysop \<Rightarrow> string \<Rightarrow> error option"
  stale :: "string \<Rightarrow> nat \<Rightarrow> bool"
  nanos :: "event list \<Rightarrow> nat"
  choices :: "event list \<Rightarrow> nat list"
  taker :: "event list \<Rightarrow> nat"

text \<open>
  Modelled from the spec: \<open>createParentIfNotExist\<close> is not among the sources; the spec
  says "create parent dirs". Directories are not part of the flat map, so the call only
  succeeds or fails.
\<close>

definition createParentIfNotExist :: "env \<Rightarrow> fsys \<Rightarrow> string \<Rightarrow> error option" where
  "createParentIfNotExist ev s p = fault ev (trace s) MkParent p"

text \<open>\<open>os.OpenFile(p, O_WRONLY|O_CREATE|O_EXCL|O_SYNC, 0600)\<close>: fails when \<open>p\<close> exists.\<close>

definition openExcl :: "env \<Rightarrow> fsys \<Rightarrow> string \<Rightarrow> error + fsys" where
  "openExcl ev s p =
     (if files s p \<noteq> None then Inl ErrExist
      else case fault ev (trace s) OpenExcl p of
             Some e \<Rightarrow> Inl e
           | None \<Rightarrow> Inr (logEvent (Created p) (s\<lparr>files := (files s)(p \<mapsto> [])\<rparr>)))"

text \<open>\<open>os.Remove(p)\<close>: fails when \<open>p\<close> is missing, or when the environment says so.\<close>

definition osRemove :: "env \<Rightarrow> fsys \<Rightarrow> string \<Rightarrow> error option \<times> fsys" where
  "osRemove ev s p =
     (case files s p of
        None \<Rightarrow> (Some ErrNotExist, s)
      | Some c \<Rightarrow>
          (case fault ev (trace s) Remove p of
             Some e \<Rightarrow> (Some e, s)
           | None \<Rightarrow> (None, logEvent (Removed p) (s\<lparr>files := (files s)(p := None)\<rparr>))))"

section \<open>The advisory lock manager (storage.go, Lock .. tryToRemoveStaleLock)\<close>

definition lockf :: "string \<Rightarrow> string" where
  "lockf fn = fn @ ''.lock''"

text \<open>
  \<open>tryToRemoveStaleLock\<close>: nothing when \<open>os.Stat\<close> fails; when the file is older than the
  deadline it is removed, and a failure of the removal is ignored.
\<close>

definition tryToRemoveStaleLock :: "env \<Rightarrow> fsys \<Rightarrow> string \<Rightarrow> nat \<Rightarrow> fsys" where
  "tryToRemoveStaleLock ev s p i =
     (case files s p of
        None \<Rightarrow> s
      | Some c \<Rightarrow> if stale ev p i then snd (osRemove ev s p) else s)"

text \<open>
  The \<open>for\<close> loop of \<open>Lock\<close> has no bound: it runs until the file can be created. The
  model gives it fuel, one unit per attempt; \<open>None\<close> says the caller is still waiting
  after that many attempts. \<open>i\<close> counts the attempts made so far.
\<close>

fun lockLoop :: "nat \<Rightarrow> nat \<Rightarrow> env \<Rightarrow> fsys \<Rightarrow> string \<Rightarrow> (error option \<times> fsys) option" where
  "lockLoop 0 i ev s p = None"
| "lockLoop (Suc n) i ev s p =
     (case openExcl ev s p of
        Inl e \<Rightarrow>
          if isExist e then lockLoop n (Suc i) ev (tryToRemoveStaleLock ev s p i) p
          else Some (Some e, s)
      | Inr s' \<Rightarrow>
          (case fault ev (trace s') CloseFile p of
             Some e \<Rightarrow> Some (Some e, s')
           | None \<Rightarrow> Some (None, s')))"

definition Lock :: "nat \<Rightarrow> env \<Rightarrow> fsys \<Rightarrow> string \<Rightarrow> (error option \<times> fsys) option" where
  "Lock fuel ev s fn =
     (case createParentIfNotExist ev s (lockf fn) of
        Some e \<Rightarrow> Some (Some e, s)
      | None \<Rightarrow> lockLoop fuel 0 ev s (lockf fn))"

definition Unlock :: "env \<Rightarrow> fsys \<Rightarrow> string \<Rightarrow> error option \<times> fsys" where
  "Unlock ev s fn = osRemove ev s (lockf fn)"

text \<open>The \<open>for _, f := range sorted\<close> loop of \<open>UnlockMany\<close>: it returns at the first error.\<close>

fun unlockEach :: "env \<Rightarrow> fsys \<Rightarrow> string list \<Rightarrow> error option \<times> fsys" where
  "unlockEach ev s [] = (None, s)"
| "unlockEach ev s (f # fs) =
     (case Unlock ev s f of
        (Some e, s') \<Rightarrow> (Some e, s')
      | (None, s') \<Rightarrow> unlockEach ev s' fs)"

text \<open>
  \<open>UnlockMany\<close> copies \<open>filenames\<close> into \<open>sorted\<close>, then sorts \<open>filenames\<close> itself (the
  caller's slice) in reverse order, and ranges over the copy. The third component of the
  result is the caller's slice as the call leaves it.
\<close>

definition UnlockMany :: "env \<Rightarrow> fsys \<Rightarrow> string list \<Rightarrow> error option \<times> fsys \<times> string list" where
  "UnlockMany ev s filenames =
     (let sorted = filenames;
          filenames' = rev (sort filenames)
      in case unlockEach ev s sorted of (r, s') \<Rightarrow> (r, s', filenames'))"

text \<open>
  The loop of \<open>LockMany\<close> over the sorted copy; \<open>locks\<close> are the names locked so far. The
  result of \<open>s.UnlockMany(locks)\<close> is dropped, as in the source.
\<close>

fun lockEach :: "nat \<Rightarrow> env \<Rightarrow> fsys \<Rightarrow> string list \<Rightarrow> string list \<Rightarrow> (error option \<times> fsys) option" where
  "lockEach fuel ev s locks [] = Some (None, s)"
| "lockEach fuel ev s locks (f # rest) =
     (case Lock fuel ev s f of
        None \<Rightarrow> None
      | Some (Some e, s') \<Rightarrow> Some (Some e, fst (snd (UnlockMany ev s' locks)))
      | Some (None, s') \<Rightarrow> lockEach fuel ev s' (locks @ [f]) rest)"

definition LockMany :: "nat \<Rightarrow> env \<Rightarrow> fsys \<Rightarrow> string list \<Rightarrow> (error option \<times> fsys) option" where
  "LockMany fuel ev s filenames = lockEach fuel ev s [] (sort filenames)"

text \<open>A name is locked when its lock file is on the disk.\<close>

definition locked :: "fsys \<Rightarrow> string \<Rightarrow> bool" where
  "locked s fn = (files s (lockf fn) \<noteq> None)"

text \<open>The paths created and the paths removed, in order, as a trace records them.\<close>

fun created :: "event list \<Rightarrow> string list" where
  "created [] = []"
| "created (Created p # es) = p # created es"
| "created (e # es) = created es"

fun removed :: "event list \<Rightarrow> string list" where
  "removed [] = []"
| "removed (Removed p # es) = p # removed es"
| "removed (e # es) = removed es"

text \<open>
  Concrete environments and disks for the runs below: no fault at all, one more fault, an
  empty disk, a disk holding the given files. An environment has plain faults when it
  never reports "file exists" for a file that is not there.
\<close>

definition failing :: "sysop \<Rightarrow> string \<Rightarrow> error \<Rightarrow> env \<Rightarrow> env" where
  "failing op p e ev =
     ev\<lparr>fault := (\<lambda>h op' p'. if op' = op \<and> p' = p then Some e else fault ev h op' p')\<rparr>"

definition diskOf :: "(string \<times> bytes) list \<Rightarrow> fsys" where
  "diskOf kvs = \<lparr>files = map_of kvs, backups = [], trace = []\<rparr>"

definition plainFaults :: "env \<Rightarrow> bool" where
  "plainFaults ev = (\<forall>h p e. fault ev h OpenExcl p = Some e \<longrightarrow> \<not> isExist e)"

definition quiet :: env where
  "quiet = \<lparr>fault = (\<lambda>h op p. None), stale = (\<lambda>p i. False),
             nanos = (\<lambda>h. length h), choices = (\<lambda>h. []), taker = (\<lambda>h. length h)\<rparr>"

definition emptyDisk :: fsys where
  "emptyDisk = \<lparr>files = Map.empty, backups = [], trace = []\<rparr>"

section \<open>The envelope codec (storage.go, ReadDataFile and SaveDataFile)\<close>

text \<open>
  Package \<open>crypto\<close> of the repository is not among the sources, and \<open>compress/gzip\<close> and
  \<open>encoding/json\<close> are libraries: what they compute is a parameter. \<open>'k\<close> is
  \<open>crypto.EncryptionKey\<close>, \<open>'o\<close> the type of the stored objects.
  \<^item> \<open>newKey\<close>: \<open>s.masterKey.NewEncryptionKey()\<close>;
  \<^item> \<open>wrapKey k\<close>: the bytes \<open>k.WriteEncryptedKey(f)\<close> writes;
  \<^item> \<open>unwrapKey\<close>: \<open>s.masterKey.ReadEncryptedKey(f)\<close>, the key and the rest of the file;
  \<^item> \<open>seal k\<close>, \<open>unseal k\<close>: the streams of \<open>k.StartWriter(f)\<close> and \<open>k.StartReader(f)\<close>;
  \<^item> \<open>gzip\<close>, \<open>gunzip\<close>: \<open>gzip.NewWriterLevel(w, gzip.BestCompression)\<close>, \<open>gzip.NewReader(r)\<close>;
  \<^item> \<open>jsonEncode\<close>: \<open>enc.Encode(obj)\<close> with indent of two spaces;
  \<^item> \<open>jsonDecode obj\<close>: \<open>json.NewDecoder(gz).Decode(obj)\<close>, which decodes into \<open>obj\<close>.
\<close>

record ('k, 'o) codec =
  newKey :: "event list \<Rightarrow> error + 'k"
  wrapKey :: "'k \<Rightarrow> bytes"
  unwrapKey :: "bytes \<Rightarrow> error + ('k \<times> bytes)"
  seal :: "'k \<Rightarrow> bytes \<Rightarrow> bytes"
  unseal :: "'k \<Rightarrow> bytes \<Rightarrow> error + bytes"
  gzip :: "bytes \<Rightarrow> bytes"
  gunzip :: "bytes \<Rightarrow> error + bytes"
  jsonEncode :: "'o \<Rightarrow> error + bytes"
  jsonDecode :: "'o \<Rightarrow> bytes \<Rightarrow> error + 'o"

text \<open>
  \<open>ReadDataFile\<close>: the key and the decoded object, or the first error. What is read is
  determined by what is on the disk; \<open>os.Open\<close> fails when the file is missing. On an
  error the Go function returns a nil key.
\<close>

definition ReadDataFile :: "('k, 'o) codec \<Rightarrow> fsys \<Rightarrow> string \<Rightarrow> 'o \<Rightarrow> error + ('k \<times> 'o)" where
  "ReadDataFile cd s filename obj =
     (case files s filename of
        None \<Rightarrow> Inl ErrNotExist
      | Some content \<Rightarrow>
          (case unwrapKey cd content of
             Inl e \<Rightarrow> Inl e
           | Inr (k, rest) \<Rightarrow>
               (case unseal cd k rest of
                  Inl e \<Rightarrow> Inl e
                | Inr plain \<Rightarrow>
                    (case gunzip cd plain of
                       Inl e \<Rightarrow> Inl e
                     | Inr js \<Rightarrow>
                         (case jsonDecode cd obj js of
                            Inl e \<Rightarrow> Inl e
                          | Inr obj' \<Rightarrow> Inr (k, obj'))))))"

text \<open>\<open>fmt.Sprintf("%d", n)\<close> for a number that is not negative.\<close>

definition digitChar :: "nat \<Rightarrow> char" where
  "digitChar d = ''0123456789'' ! d"

function showNat :: "nat \<Rightarrow> string" where
  "showNat n = (if n < 10 then [digitChar n] else showNat (n div 10) @ [digitChar (n mod 10)])"
  by pat_completeness auto
termination
  by (relation "measure id") auto

declare showNat.simps [simp del]

text \<open>\<open>os.Rename(src, dst)\<close> replaces \<open>dst\<close>; \<open>f.Write\<close> on a file opened for writing.\<close>

definition osRename :: "env \<Rightarrow> fsys \<Rightarrow> string \<Rightarrow> string \<Rightarrow> error option \<times> fsys" where
  "osRename ev s src dst =
     (case files s src of
        None \<Rightarrow> (Some ErrNotExist, s)
      | Some c \<Rightarrow>
          (case fault ev (trace s) Rename dst of
             Some e \<Rightarrow> (Some e, s)
           | None \<Rightarrow> (None, logEvent (Renamed src dst) (s\<lparr>files := (files s)(src := None, dst \<mapsto> c)\<rparr>))))"

definition appendTo :: "fsys \<Rightarrow> string \<Rightarrow> bytes \<Rightarrow> fsys" where
  "appendTo s p b = s\<lparr>files := (files s)(p \<mapsto> (case files s p of None \<Rightarrow> b | Some c \<Rightarrow> c @ b))\<rparr>"

text \<open>
  The key \<open>SaveDataFile\<close> writes with: the one passed in, or a new one, in which case the
  parent directory is created as well.
\<close>

definition keyFor ::
  "('k, 'o) codec \<Rightarrow> env \<Rightarrow> fsys \<Rightarrow> 'k option \<Rightarrow> string \<Rightarrow> error + 'k" where
  "keyFor cd ev s k filename =
     (case k of
        Some k' \<Rightarrow> Inr k'
      | None \<Rightarrow>
          (case newKey cd (trace s) of
             Inl e \<Rightarrow> Inl e
           | Inr k' \<Rightarrow>
               (case createParentIfNotExist ev s filename of
                  Some e \<Rightarrow> Inl e
                | None \<Rightarrow> Inr k')))"

text \<open>
  \<open>SaveDataFile\<close>, step by step as in the source. The temporary file holds the wrapped key
  once \<open>WriteEncryptedKey\<close> has returned and the sealed, compressed object once \<open>w.Close()\<close>
  has; what a failed step leaves in it beyond that is not represented. Every failure after
  the temporary file was opened leaves that file behind.
\<close>

definition SaveDataFile ::
  "('k, 'o) codec \<Rightarrow> env \<Rightarrow> fsys \<Rightarrow> 'k option \<Rightarrow> string \<Rightarrow> 'o \<Rightarrow> error option \<times> fsys" where
  "SaveDataFile cd ev s k filename obj =
     (case keyFor cd ev s k filename of
        Inl e \<Rightarrow> (Some e, s)
      | Inr key \<Rightarrow>
          (let t = filename @ ''.tmp-'' @ showNat (nanos ev (trace s)) in
           case openExcl ev s t of
             Inl e \<Rightarrow> (Some e, s)
           | Inr s1 \<Rightarrow>
               (case fault ev (trace s1) WriteKey t of
                  Some e \<Rightarrow> (Some e, s1)
                | None \<Rightarrow>
                    (let s2 = appendTo s1 t (wrapKey cd key) in
                     case fault ev (trace s2) StartWriter t of
                       Some e \<Rightarrow> (Some e, s2)
                     | None \<Rightarrow>
                         (case fault ev (trace s2) NewGzip t of
                            Some e \<Rightarrow> (Some e, s2)
                          | None \<Rightarrow>
                              (case jsonEncode cd obj of
                                 Inl e \<Rightarrow> (Some e, s2)
                               | Inr js \<Rightarrow>
                                   (case fault ev (trace s2) Encode t of
                                      Some e \<Rightarrow> (Some e, s2)
                                    | None \<Rightarrow>
                                        (case fault ev (trace s2) GzClose t of
                                           Some e \<Rightarrow> (Some e, s2)
                                         | None \<Rightarrow>
                                             (case fault ev (trace s2) WClose t of
                                                Some e \<Rightarrow> (Some e, s2)
                                              | None \<Rightarrow>
                                                  osRename ev
                                                    (appendTo s2 t (seal cd key (gzip cd js)))
                                                    t filename)))))))))"

section \<open>Backups\<close>

text \<open>
  Modelled from the spec: \<open>createBackup\<close>, \<open>backup.restore\<close> and \<open>backup.delete\<close> are not
  among the sources. The spec: "snapshot the current on-disk envelopes for all N names into
  a single backup record (atomically written + fsynced) before any save"; "restore it
  (rename originals back into place, atomically per file)"; "delete the backup record". A
  name that has no envelope on disk has no copy in the record.
\<close>

definition snapshot :: "fsys \<Rightarrow> string list \<Rightarrow> (string \<times> bytes) list" where
  "snapshot s names = List.map_filter (\<lambda>n. map_option (Pair n) (files s n)) names"

definition createBackup :: "env \<Rightarrow> fsys \<Rightarrow> string list \<Rightarrow> error + (backup \<times> fsys)" where
  "createBackup ev s names =
     (case fault ev (trace s) MkBackup ''.backup'' of
        Some e \<Rightarrow> Inl e
      | None \<Rightarrow>
          (let b = \<lparr>bnames = names, originals = snapshot s names\<rparr>
           in Inr (b, logEvent (BackupCreated names) (s\<lparr>backups := backups s @ [b]\<rparr>))))"

fun putBack :: "string \<times> bytes \<Rightarrow> (string \<rightharpoonup> bytes) \<Rightarrow> (string \<rightharpoonup> bytes)" where
  "putBack (n, c) m = m(n \<mapsto> c)"

definition restore :: "backup \<Rightarrow> fsys \<Rightarrow> fsys" where
  "restore b s =
     logEvent (BackupRestored (bnames b)) (s\<lparr>files := fold putBack (originals b) (files s)\<rparr>)"

definition delete :: "backup \<Rightarrow> fsys \<Rightarrow> fsys" where
  "delete b s = logEvent (BackupDeleted (bnames b)) (s\<lparr>backups := remove1 b (backups s)\<rparr>)"

section \<open>The transactional store (storage.go, OpenManyForUpdate)\<close>

text \<open>
  Goroutines that run in parallel hand in their results in an order the scheduler picks.
  \<open>arrange cs xs\<close> is \<open>xs\<close> in the order the choices \<open>cs\<close> pick: each choice takes one of
  the elements that are left. Every list of choices gives a permutation of \<open>xs\<close>, and every
  permutation comes from some list of choices.
\<close>

fun arrange :: "nat list \<Rightarrow> 'a list \<Rightarrow> 'a list" where
  "arrange cs [] = []"
| "arrange [] xs = xs"
| "arrange (c # cs) xs =
     (xs ! (c mod length xs)) # arrange cs (take (c mod length xs) xs @ drop (Suc (c mod length xs)) xs)"

text \<open>
  What a call either does not return from (a lock it waits for), or panics in, or returns.
\<close>

datatype 'a outcome = Blocked | Panicked string | Returned 'a

text \<open>
  The state of the closure \<open>OpenManyForUpdate\<close> returns: the captured \<open>files\<close> and \<open>keys\<close>
  and the two flags. The objects belong to the caller, who changes them between the call
  and the commit: the closure is given their current values when it is invoked.
\<close>

record ('k, 'o) txn =
  tfiles :: "string list"
  tkeys :: "'k option list"
  called :: bool
  committed :: bool

text \<open>The read phase: one \<open>ReadDataFile\<close> per index, results in order of arrival.\<close>

definition readAll ::
  "('k, 'o) codec \<Rightarrow> env \<Rightarrow> fsys \<Rightarrow> string list \<Rightarrow> 'o list \<Rightarrow> (nat \<times> (error + ('k \<times> 'o))) list" where
  "readAll cd ev s fs objs =
     arrange (choices ev (trace s))
       (map (\<lambda>i. (i, ReadDataFile cd s (fs ! i) (objs ! i))) [0..<length fs])"

definition readErrors :: "(nat \<times> (error + ('k \<times> 'o))) list \<Rightarrow> error list" where
  "readErrors rs =
     concat (map (\<lambda>(i, r). case r of Inl e \<Rightarrow> (if isNotExist e then [] else [e]) | Inr v \<Rightarrow> []) rs)"

definition readKeys :: "nat \<Rightarrow> (nat \<times> (error + ('k \<times> 'o))) list \<Rightarrow> 'k option list" where
  "readKeys n rs =
     fold (\<lambda>(i, r) ks. ks[i := (case r of Inl e \<Rightarrow> None | Inr (k, obj) \<Rightarrow> Some k)]) rs (replicate n None)"

definition readObjs :: "'o list \<Rightarrow> (nat \<times> (error + ('k \<times> 'o))) list \<Rightarrow> 'o list" where
  "readObjs objs rs =
     fold (\<lambda>(i, r) os. case r of Inl e \<Rightarrow> os | Inr (k, obj) \<Rightarrow> os[i := obj]) rs objs"

text \<open>
  \<open>OpenManyForUpdate\<close> returns the error, the closure (if any), the objects as read, the
  disk, and the caller's \<open>files\<close> slice, which \<open>UnlockMany\<close> reorders. That \<open>objects\<close> is a
  slice is in the type here.
\<close>

definition OpenManyForUpdate ::
  "nat \<Rightarrow> ('k, 'o) codec \<Rightarrow> env \<Rightarrow> fsys \<Rightarrow> string list \<Rightarrow> 'o list \<Rightarrow>
     (error option \<times> ('k, 'o) txn option \<times> 'o list \<times> fsys \<times> string list) outcome" where
  "OpenManyForUpdate fuel cd ev s fs objs =
     (if length fs \<noteq> length objs then Panicked ''len(files) != len(objects)''
      else case LockMany fuel ev s fs of
             None \<Rightarrow> Blocked
           | Some (Some e, s1) \<Rightarrow> Returned (Some e, None, objs, s1, fs)
           | Some (None, s1) \<Rightarrow>
               (let rs = readAll cd ev s1 fs objs;
                    errorList = readErrors rs;
                    keys = readKeys (length fs) rs;
                    objs' = readObjs objs rs
                in if errorList \<noteq> [] then
                     (case UnlockMany ev s1 fs of
                        (ue, s2, fs') \<Rightarrow>
                          Returned (Some (ErrReadDataFile errorList), None, objs', s2, fs'))
                   else
                     Returned (None,
                       Some \<lparr>tfiles = fs, tkeys = keys, called = False, committed = False\<rparr>,
                       objs', s1, fs)))"

definition OpenForUpdate ::
  "nat \<Rightarrow> ('k, 'o) codec \<Rightarrow> env \<Rightarrow> fsys \<Rightarrow> string \<Rightarrow> 'o \<Rightarrow>
     (error option \<times> ('k, 'o) txn option \<times> 'o list \<times> fsys \<times> string list) outcome" where
  "OpenForUpdate fuel cd ev s f obj = OpenManyForUpdate fuel cd ev s [f] [obj]"

text \<open>
  The commit closure. \<open>errp\<close> is \<open>None\<close> for a nil pointer and \<open>Some v\<close> for a pointer to a
  variable that holds \<open>v\<close>. The closure writes through \<open>errp\<close> only when it is not nil and
  points to a nil error; otherwise it writes to its own result \<open>retErr\<close>. \<open>callerVar\<close> is the
  caller's variable after the cell the closure wrote to was left holding \<open>v\<close>.
\<close>

definition callerVar :: "error option option \<Rightarrow> error option \<Rightarrow> error option option" where
  "callerVar errp v = (if errp = None \<or> errp \<noteq> Some None then errp else Some v)"

text \<open>The backup taken when there is more than one file.\<close>

definition backupPhase :: "env \<Rightarrow> string list \<Rightarrow> fsys \<Rightarrow> error + (backup option \<times> fsys)" where
  "backupPhase ev fs s =
     (if length fs > 1 then
        (case createBackup ev s fs of
           Inl e \<Rightarrow> Inl e
         | Inr (b, s1) \<Rightarrow> Inr (Some b, s1))
      else Inr (None, s))"

text \<open>
  The parallel saves. Each \<open>SaveDataFile\<close> works on a temporary file of its own and ends
  with one rename, so a save is taken as one step; the steps and their results come in
  the order of arrival.
\<close>

fun saveAll ::
  "('k, 'o) codec \<Rightarrow> env \<Rightarrow> fsys \<Rightarrow> ('k option \<times> string \<times> 'o) list \<Rightarrow> error list \<times> fsys" where
  "saveAll cd ev s [] = ([], s)"
| "saveAll cd ev s ((k, f, obj) # js) =
     (case SaveDataFile cd ev s k f obj of
        (r, s1) \<Rightarrow>
          (case saveAll cd ev s1 js of
             (es, s2) \<Rightarrow> ((case r of None \<Rightarrow> [] | Some e \<Rightarrow> [e]) @ es, s2)))"

definition savePhase ::
  "('k, 'o) codec \<Rightarrow> env \<Rightarrow> 'k option list \<Rightarrow> string list \<Rightarrow> fsys \<Rightarrow> 'o list \<Rightarrow>
     error list \<times> fsys" where
  "savePhase cd ev keys fs s objs =
     saveAll cd ev s (arrange (choices ev (trace s)) (zip keys (zip fs objs)))"

text \<open>
  The end of the closure: unlock, then \<open>ErrRolledBack\<close> for a rollback that met no error.
  \<open>v\<close> is what \<open>*errp\<close> holds when the unlock starts.
\<close>

definition unlockPhase ::
  "env \<Rightarrow> ('k, 'o) txn \<Rightarrow> fsys \<Rightarrow> bool \<Rightarrow> error option option \<Rightarrow> error option \<Rightarrow>
     error option \<times> error option option \<times> ('k, 'o) txn \<times> fsys" where
  "unlockPhase ev t s c errp v =
     (case UnlockMany ev s (tfiles t) of
        (ue, s', fs') \<Rightarrow>
          (let v1 = (case v of None \<Rightarrow> ue | Some e \<Rightarrow> Some e);
               v2 = (if \<not> c \<and> v1 = None then Some ErrRolledBack else v1)
           in (v2, callerVar errp v2, t\<lparr>tfiles := fs'\<rparr>, s')))"

definition commit ::
  "('k, 'o) codec \<Rightarrow> env \<Rightarrow> ('k, 'o) txn \<Rightarrow> fsys \<Rightarrow> 'o list \<Rightarrow> bool \<Rightarrow> error option option \<Rightarrow>
     error option \<times> error option option \<times> ('k, 'o) txn \<times> fsys" where
  "commit cd ev t s objs c errp =
     (if called t then
        (if committed t then (Some ErrAlreadyCommitted, errp, t, s)
         else (Some ErrAlreadyRolledBack, errp, t, s))
      else
        (let t1 = t\<lparr>called := True\<rparr> in
         if c then
           (case backupPhase ev (tfiles t) s of
              Inl e \<Rightarrow> (Some e, callerVar errp (Some e), t1, s)
            | Inr (bk, s1) \<Rightarrow>
                (case savePhase cd ev (tkeys t) (tfiles t) s1 objs of
                   (errorList, s2) \<Rightarrow>
                     if errorList \<noteq> [] then
                       unlockPhase ev t1 (case bk of None \<Rightarrow> s2 | Some b \<Rightarrow> restore b s2) c errp
                         (Some (ErrSaveDataFile errorList))
                     else
                       unlockPhase ev (t1\<lparr>committed := True\<rparr>)
                         (case bk of None \<Rightarrow> s2 | Some b \<Rightarrow> delete b s2) c errp None))
         else unlockPhase ev t1 s c errp None))"



fun isBackupEvent :: "event \<Rightarrow> bool" where
  "isBackupEvent (BackupCreated ns) = True"
| "isBackupEvent (BackupRestored ns) = True"
| "isBackupEvent (BackupDeleted ns) = True"
| "isBackupEvent e = False"


text \<open>A small codec for the concrete runs: keys are characters, objects are their own JSON text.\<close>

definition toyCodec :: "(char, string) codec" where
  "toyCodec =
     \<lparr>newKey = (\<lambda>h. Inr (CHR ''n'')),
      wrapKey = (\<lambda>k. [k]),
      unwrapKey = (\<lambda>b. case b of [] \<Rightarrow> Inl (ErrOther ''EOF'') | k # rest \<Rightarrow> Inr (k, rest)),
      seal = (\<lambda>k b. k # rev b),
      unseal = (\<lambda>k b. case b of [] \<Rightarrow> Inl (ErrOther ''short'')
                       | c # rest \<Rightarrow> if c = k then Inr (rev rest) else Inl (ErrOther ''auth'')),
      gzip = (\<lambda>b. CHR ''z'' # b),
      gunzip = (\<lambda>b. case b of [] \<Rightarrow> Inl (ErrOther ''gzip'')
                     | c # rest \<Rightarrow> if c = CHR ''z'' then Inr rest else Inl (ErrOther ''gzip'')),
      jsonEncode = (\<lambda>obj. if obj = ''bad'' then Inl (ErrOther ''json'') else Inr obj),
      jsonDecode = (\<lambda>old b. if b = ''bad'' then Inl (ErrOther ''json'') else Inr b)\<rparr>"

text \<open>
  Disks and a closure for the concrete runs: \<open>a\<close> and \<open>b\<close> hold the objects \<open>x\<close> and \<open>y\<close> under
  the key \<open>k\<close> of the small codec; \<open>heldTwo\<close> has both locked, and \<open>freshTxn\<close> is the closure
  \<open>OpenManyForUpdate\<close> returns for them. \<open>oneBad\<close> holds an envelope that is cut short.
\<close>

definition twoFiles :: fsys where
  "twoFiles = diskOf [(''a'', ''kkxz''), (''b'', ''kkyz'')]"

definition heldTwo :: fsys where
  "heldTwo = diskOf [(''a.lock'', []), (''b.lock'', []), (''a'', ''kkxz''), (''b'', ''kkyz'')]"

definition freshTxn :: "(char, string) txn" where
  "freshTxn = \<lparr>tfiles = [''a'', ''b''], tkeys = [Some CHR ''k'', Some CHR ''k''],
               called = False, committed = False\<rparr>"

definition oneGood :: fsys where
  "oneGood = diskOf [(''a'', ''kkxz'')]"

definition oneBad :: fsys where
  "oneBad = diskOf [(''a'', ''x'')]"

definition lockedAB :: "fsys \<Rightarrow> fsys" where
  "lockedAB d = d\<lparr>files := (files d)(''a.lock'' \<mapsto> [], ''b.lock'' \<mapsto> []),
                  trace := trace d @ [Created ''a.lock'', Created ''b.lock'']\<rparr>"

section \<open>The client: Sync and Free\<close>

text \<open>
  Of a \<open>ListItem\<close> the two functions read \<open>FSFile.File\<close>, \<open>FSFile.LocalOnly\<close> and \<open>Set\<close>.
  \<open>GlobFiles\<close>, the storage's \<open>HashString\<close>, the constant \<open>blobsDir\<close> and the HTTP download
  are not among the sources: they are fields of the client. \<open>fetch\<close> is the body that
  \<open>c.download(file, set, "0")\<close> delivers.
\<close>

record FSFile =
  File :: string
  LocalOnly :: bool

record ListItem =
  FSFile :: FSFile
  Set :: string

record client =
  GlobFiles :: "string list \<Rightarrow> error + ListItem list"
  HashString :: "string \<Rightarrow> string"
  blobsDir :: string
  fetch :: "event list \<Rightarrow> string \<Rightarrow> string \<Rightarrow> error + bytes"

text \<open>
  \<open>blobPath\<close>: \<open>filepath.Join(dir, blobsDir, n[:2], n)\<close>, relative to the storage
  directory. \<open>n[:2]\<close> panics when the hash has fewer than two bytes: \<open>None\<close>.
\<close>

definition blobPath :: "client \<Rightarrow> string \<Rightarrow> bool \<Rightarrow> string option" where
  "blobPath c name thumb =
     (let n = HashString c (if thumb then name @ ''-thumb'' else name)
      in if length n < 2 then None
         else Some (blobsDir c @ ''/'' @ take 2 n @ ''/'' @ n))"

text \<open>
  \<open>files[item.FSFile.File] = item\<close>: the map of \<open>Sync\<close> as a list with one entry per key. An
  item whose key is there replaces the entry.
\<close>

fun putItem :: "ListItem \<Rightarrow> ListItem list \<Rightarrow> ListItem list" where
  "putItem x [] = [x]"
| "putItem x (y # ys) =
     (if File (FSFile y) = File (FSFile x) then x # ys else y # putItem x ys)"

text \<open>
  The first loop of \<open>Sync\<close>. \<open>os.Stat\<close> reports that a path does not exist exactly when it
  is not on the disk.
\<close>

fun collect :: "client \<Rightarrow> fsys \<Rightarrow> ListItem list \<Rightarrow> ListItem list \<Rightarrow> ListItem list option" where
  "collect c s [] acc = Some acc"
| "collect c s (item # rest) acc =
     (if LocalOnly (FSFile item) then collect c s rest acc
      else case blobPath c (File (FSFile item)) False of
             None \<Rightarrow> None
           | Some fn \<Rightarrow>
               if files s fn = None then collect c s rest (putItem item acc)
               else collect c s rest acc)"

text \<open>
  \<open>downloadFile\<close>. \<open>None\<close> is the panic of \<open>blobPath\<close>. A failed copy leaves the temporary
  file behind; what it holds then is not represented.
\<close>

definition downloadFile :: "client \<Rightarrow> env \<Rightarrow> fsys \<Rightarrow> ListItem \<Rightarrow> (error option \<times> fsys) option" where
  "downloadFile c ev s li =
     (case fetch c (trace s) (File (FSFile li)) (Set li) of
        Inl e \<Rightarrow> Some (Some e, s)
      | Inr body \<Rightarrow>
          (case blobPath c (File (FSFile li)) False of
             None \<Rightarrow> None
           | Some fn \<Rightarrow>
               (case fault ev (trace s) MkdirAll fn of
                  Some e \<Rightarrow> Some (Some e, s)
                | None \<Rightarrow>
                    (let tmp = fn @ ''-tmp-'' @ showNat (nanos ev (trace s)) in
                     case openExcl ev s tmp of
                       Inl e \<Rightarrow> Some (Some e, s)
                     | Inr s1 \<Rightarrow>
                         (case fault ev (trace s1) Copy tmp of
                            Some e \<Rightarrow> Some (Some e, s1)
                          | None \<Rightarrow>
                              (let s2 = appendTo s1 tmp body in
                               case fault ev (trace s2) CloseFile tmp of
                                 Some e \<Rightarrow> Some (Some e, s2)
                               | None \<Rightarrow> Some (osRename ev s2 tmp fn)))))))"

text \<open>
  The pool: \<open>Sync\<close> starts five workers, and each item of the queue goes to one of them,
  who runs \<open>downloadFile\<close> on it and sends the result. A download is taken as one step;
  the steps come in the order in which the items leave the queue.
\<close>

definition numWorkers :: nat where
  "numWorkers = 5"

definition downloadWorker ::
  "client \<Rightarrow> env \<Rightarrow> fsys \<Rightarrow> ListItem \<Rightarrow> (error option \<times> fsys) option" where
  "downloadWorker c ev s li =
     downloadFile c ev
       (logEvent (WorkerTook ([0..<numWorkers] ! (taker ev (trace s) mod numWorkers)) (File (FSFile li))) s) li"

fun downloadAll :: "client \<Rightarrow> env \<Rightarrow> fsys \<Rightarrow> ListItem list \<Rightarrow> (error list \<times> fsys) option" where
  "downloadAll c ev s [] = Some ([], s)"
| "downloadAll c ev s (li # rest) =
     (case downloadWorker c ev s li of
        None \<Rightarrow> None
      | Some (r, s1) \<Rightarrow>
          (case downloadAll c ev s1 rest of
             None \<Rightarrow> None
           | Some (es, s2) \<Rightarrow> Some ((case r of None \<Rightarrow> [] | Some e \<Rightarrow> [e]) @ es, s2)))"

text \<open>What \<open>Sync\<close> prints, from the number of files and the errors.\<close>

definition syncMessage :: "nat \<Rightarrow> error list \<Rightarrow> string" where
  "syncMessage n errs =
     (if n = 0 then ''All files already in sync.''
      else if errs = [] then ''Successfully downloaded '' @ showNat n @ '' file(s).''
      else ''Successfully downloaded '' @ showNat (n - length errs) @ '' file(s), ''
             @ showNat (length errs) @ '' failed.'')"

text \<open>\<open>Sync\<close> returns its error, the lines it printed, and the disk.\<close>

definition Sync ::
  "client \<Rightarrow> env \<Rightarrow> fsys \<Rightarrow> string list \<Rightarrow> (error option \<times> string list \<times> fsys) outcome" where
  "Sync c ev s patterns =
     (case GlobFiles c patterns of
        Inl e \<Rightarrow> Returned (Some e, [], s)
      | Inr list \<Rightarrow>
          (case collect c s list [] of
             None \<Rightarrow> Panicked ''slice bounds out of range''
           | Some fs \<Rightarrow>
               (case downloadAll c ev s (arrange (choices ev (trace s)) fs) of
                  None \<Rightarrow> Panicked ''slice bounds out of range''
                | Some (errs, s') \<Rightarrow>
                    Returned
                      ((case errs of [] \<Rightarrow> None | e # es \<Rightarrow> Some (ErrWrap e es)),
                       [syncMessage (length fs) errs], s'))))"

text \<open>The loop of \<open>Free\<close>, with its counter: it returns at the first removal that fails.\<close>

fun freeLoop ::
  "client \<Rightarrow> env \<Rightarrow> fsys \<Rightarrow> nat \<Rightarrow> ListItem list \<Rightarrow> (error option \<times> nat \<times> fsys) option" where
  "freeLoop c ev s count [] = Some (None, count, s)"
| "freeLoop c ev s count (item # rest) =
     (if LocalOnly (FSFile item) then freeLoop c ev s count rest
      else case blobPath c (File (FSFile item)) False of
             None \<Rightarrow> None
           | Some fn \<Rightarrow>
               if files s fn = None then freeLoop c ev s count rest
               else (case osRemove ev s fn of
                       (Some e, s1) \<Rightarrow> Some (Some e, count, s1)
                     | (None, s1) \<Rightarrow> freeLoop c ev s1 (Suc count) rest))"

definition freeMessage :: "nat \<Rightarrow> string" where
  "freeMessage count =
     (if count = 0 then ''There are no files to delete.''
      else ''Successfully freed '' @ showNat count @ '' file(s).'')"

definition Free ::
  "client \<Rightarrow> env \<Rightarrow> fsys \<Rightarrow> string list \<Rightarrow> (error option \<times> string list \<times> fsys) outcome" where
  "Free c ev s patterns =
     (case GlobFiles c patterns of
        Inl e \<Rightarrow> Returned (Some e, [], s)
      | Inr list \<Rightarrow>
          (case freeLoop c ev s 0 list of
             None \<Rightarrow> Panicked ''slice bounds out of range''
           | Some (Some e, count, s') \<Rightarrow> Returned (Some e, [], s')
           | Some (None, count, s') \<Rightarrow> Returned (None, [freeMessage count], s')))"


definition wanted :: "client \<Rightarrow> fsys \<Rightarrow> ListItem \<Rightarrow> bool" where
  "wanted c s item =
     (\<not> LocalOnly (FSFile item)
      \<and> (case blobPath c (File (FSFile item)) False of None \<Rightarrow> False | Some fn \<Rightarrow> files s fn = None))"


definition present :: "client \<Rightarrow> fsys \<Rightarrow> ListItem \<Rightarrow> bool" where
  "present c s item =
     (case blobPath c (File (FSFile item)) False of None \<Rightarrow> False | Some fn \<Rightarrow> files s fn \<noteq> None)"



text \<open>
  The hash of every item that is not local-only has at least two bytes: \<open>blobPath\<close> does
  not panic on the list.
\<close>

definition hashOk :: "client \<Rightarrow> ListItem list \<Rightarrow> bool" where
  "hashOk c list = (\<forall>i \<in> set list. \<not> LocalOnly (FSFile i) \<longrightarrow> 2 \<le> length (HashString c (File (FSFile i))))"







section \<open>Properties of the lock manager\<close>

subsection \<open>Traces and single operations\<close>

lemma created_append: "created (xs @ ys) = created xs @ created ys"
  by (induction xs rule: created.induct) auto



lemma created_map_Removed: "created (map (\<lambda>n. Removed (f n)) xs) = []"
  by (induction xs) auto

lemma lockf_inj: "lockf a = lockf b \<longleftrightarrow> a = b"
  by (simp add: lockf_def)

lemma lockf_image: "lockf y \<in> lockf ` A \<longleftrightarrow> y \<in> A"
  by (auto simp: lockf_inj)


lemma osRemove_ok:
  "osRemove ev s p = (None, s') \<Longrightarrow>
     s' = logEvent (Removed p) (s\<lparr>files := (files s)(p := None)\<rparr>) \<and> files s p \<noteq> None"
  by (auto simp: osRemove_def split: option.splits)


lemma Unlock_ok:
  "Unlock ev s x = (None, s') \<Longrightarrow>
     trace s' = trace s @ [Removed (lockf x)] \<and> files s' = (files s)(lockf x := None)
     \<and> backups s' = backups s \<and> locked s x"
  by (auto simp: Unlock_def logEvent_def locked_def dest!: osRemove_ok)

lemma unlockEach_ok:
  "unlockEach ev s xs = (None, s') \<Longrightarrow>
     trace s' = trace s @ map (\<lambda>n. Removed (lockf n)) xs
     \<and> files s' = (\<lambda>p. if p \<in> lockf ` set xs then None else files s p)
     \<and> backups s' = backups s"
proof (induction xs arbitrary: s)
  case Nil
  then show ?case by simp
next
  case (Cons x xs)
  from Cons.prems obtain s1 where u: "Unlock ev s x = (None, s1)" and r: "unlockEach ev s1 xs = (None, s')"
    by (auto split: prod.splits option.splits)
  from Cons.IH[OF r] Unlock_ok[OF u] show ?case
    by (auto simp: fun_eq_iff)
qed



lemma openExcl_ok:
  "openExcl ev s p = Inr s' \<Longrightarrow>
     trace s' = trace s @ [Created p] \<and> files s' = (files s)(p \<mapsto> []) \<and> backups s' = backups s"
  by (auto simp: openExcl_def logEvent_def split: if_splits option.splits)

lemma osRemove_effect:
  "osRemove ev s p = (r, s') \<Longrightarrow>
     created (trace s') = created (trace s) \<and> (\<forall>q. q \<noteq> p \<longrightarrow> files s' q = files s q)
     \<and> backups s' = backups s"
  by (auto simp: osRemove_def logEvent_def created_append split: option.splits)

lemma tryToRemoveStaleLock_effect:
  "created (trace (tryToRemoveStaleLock ev s p i)) = created (trace s)
   \<and> (\<forall>q. q \<noteq> p \<longrightarrow> files (tryToRemoveStaleLock ev s p i) q = files s q)
   \<and> backups (tryToRemoveStaleLock ev s p i) = backups s"
proof (cases "osRemove ev s p")
  case (Pair r s')
  from osRemove_effect[OF this] Pair show ?thesis
    by (auto simp: tryToRemoveStaleLock_def split: option.splits)
qed

lemma lockLoop_effect:
  "lockLoop n i ev s p = Some (r, s') \<Longrightarrow>
     (\<forall>q. q \<noteq> p \<longrightarrow> files s' q = files s q) \<and> backups s' = backups s
     \<and> (r = None \<longrightarrow> created (trace s') = created (trace s) @ [p] \<and> files s' p \<noteq> None)
     \<and> (created (trace s') = created (trace s) \<or> created (trace s') = created (trace s) @ [p])"
proof (induction n arbitrary: i s)
  case 0
  then show ?case by simp
next
  case (Suc n)
  show ?case
  proof (cases "openExcl ev s p")
    case (Inl e)
    show ?thesis
    proof (cases "isExist e")
      case True
      with Inl Suc.prems
      have "lockLoop n (Suc i) ev (tryToRemoveStaleLock ev s p i) p = Some (r, s')" by simp
      from Suc.IH[OF this] tryToRemoveStaleLock_effect[of ev s p i] show ?thesis by simp
    next
      case False
      with Inl Suc.prems show ?thesis by auto
    qed
  next
    case (Inr s1)
    from openExcl_ok[OF Inr] Inr Suc.prems show ?thesis
      by (auto simp: created_append split: option.splits)
  qed
qed

lemma Lock_effect:
  "Lock fuel ev s f = Some (r, s') \<Longrightarrow>
     (\<forall>q. q \<noteq> lockf f \<longrightarrow> files s' q = files s q) \<and> backups s' = backups s
     \<and> (r = None \<longrightarrow> created (trace s') = created (trace s) @ [lockf f] \<and> locked s' f)
     \<and> (created (trace s') = created (trace s) \<or> created (trace s') = created (trace s) @ [lockf f])"
  unfolding Lock_def locked_def
proof (cases "createParentIfNotExist ev s (lockf f)")
  case None
  assume "(case createParentIfNotExist ev s (lockf f) of None \<Rightarrow> lockLoop fuel 0 ev s (lockf f)
           | Some e \<Rightarrow> Some (Some e, s)) = Some (r, s')"
  with None have "lockLoop fuel 0 ev s (lockf f) = Some (r, s')" by simp
  from lockLoop_effect[OF this] show "(\<forall>q. q \<noteq> lockf f \<longrightarrow> files s' q = files s q) \<and> backups s' = backups s
     \<and> (r = None \<longrightarrow> created (trace s') = created (trace s) @ [lockf f] \<and> files s' (lockf f) \<noteq> None)
     \<and> (created (trace s') = created (trace s) \<or> created (trace s') = created (trace s) @ [lockf f])"
    by simp
next
  case (Some e)
  assume "(case createParentIfNotExist ev s (lockf f) of None \<Rightarrow> lockLoop fuel 0 ev s (lockf f)
           | Some e \<Rightarrow> Some (Some e, s)) = Some (r, s')"
  with Some have "r = Some e" and "s' = s" by simp_all
  then show "(\<forall>q. q \<noteq> lockf f \<longrightarrow> files s' q = files s q) \<and> backups s' = backups s
     \<and> (r = None \<longrightarrow> created (trace s') = created (trace s) @ [lockf f] \<and> files s' (lockf f) \<noteq> None)
     \<and> (created (trace s') = created (trace s) \<or> created (trace s') = created (trace s) @ [lockf f])"
    by simp
qed

lemma unlockEach_created:
  "unlockEach ev s xs = (r, s') \<Longrightarrow> created (trace s') = created (trace s) \<and> backups s' = backups s"
proof (induction xs arbitrary: s)
  case Nil
  then show ?case by simp
next
  case (Cons x xs)
  obtain r1 s1 where u: "Unlock ev s x = (r1, s1)" by (cases "Unlock ev s x")
  then have c: "created (trace s1) = created (trace s) \<and> backups s1 = backups s"
    by (auto simp: Unlock_def dest!: osRemove_effect)
  show ?case
  proof (cases r1)
    case None
    with u Cons.prems have "unlockEach ev s1 xs = (r, s')" by simp
    from Cons.IH[OF this] c show ?thesis by simp
  next
    case (Some e)
    with u Cons.prems c show ?thesis by auto
  qed
qed

lemma UnlockMany_created:
  "created (trace (fst (snd (UnlockMany ev s xs)))) = created (trace s)
   \<and> backups (fst (snd (UnlockMany ev s xs))) = backups s"
  by (cases "unlockEach ev s xs") (auto simp: UnlockMany_def dest: unlockEach_created)

lemma lockEach_locks_irrelevant:
  "lockEach fuel ev s l1 xs = Some (None, s1) \<Longrightarrow> lockEach fuel ev s l2 xs = Some (None, s1)"
proof (induction xs arbitrary: s l1 l2)
  case Nil
  then show ?case by simp
next
  case (Cons x xs)
  from Cons.prems obtain sa where l: "Lock fuel ev s x = Some (None, sa)"
    and r: "lockEach fuel ev sa (l1 @ [x]) xs = Some (None, s1)"
    by (auto split: option.splits prod.splits)
  from Cons.IH[OF r, of "l2 @ [x]"] l show ?case by simp
qed

lemma lockEach_ok:
  "lockEach fuel ev s locks rest = Some (None, s') \<Longrightarrow>
     created (trace s') = created (trace s) @ map lockf rest
     \<and> (\<forall>n \<in> set rest. locked s' n)
     \<and> (\<forall>q. q \<notin> lockf ` set rest \<longrightarrow> files s' q = files s q)
     \<and> backups s' = backups s"
proof (induction rest arbitrary: s locks)
  case Nil
  then show ?case by simp
next
  case (Cons f rest)
  from Cons.prems obtain sa where l: "Lock fuel ev s f = Some (None, sa)"
    and r: "lockEach fuel ev sa (locks @ [f]) rest = Some (None, s')"
    by (auto split: option.splits prod.splits)
  note ih = Cons.IH[OF r] and le = Lock_effect[OF l]
  have "locked s' f"
  proof (cases "f \<in> set rest")
    case True
    with ih show ?thesis by simp
  next
    case False
    then have "lockf f \<notin> lockf ` set rest" by (simp add: lockf_image)
    with ih have "files s' (lockf f) = files sa (lockf f)" by simp
    with le show ?thesis by (simp add: locked_def)
  qed
  with ih le show ?case by auto
qed

lemma lockEach_fail:
  "lockEach fuel ev s locks rest = Some (Some e, s') \<Longrightarrow>
     \<exists>k s1 s2. k < length rest
       \<and> lockEach fuel ev s locks (take k rest) = Some (None, s1)
       \<and> Lock fuel ev s1 (rest ! k) = Some (Some e, s2)
       \<and> s' = fst (snd (UnlockMany ev s2 (locks @ take k rest)))"
proof (induction rest arbitrary: s locks)
  case Nil
  then show ?case by simp
next
  case (Cons f rest)
  from Cons.prems obtain r1 sa where l: "Lock fuel ev s f = Some (r1, sa)"
    by (auto split: option.splits)
  show ?case
  proof (cases r1)
    case (Some e1)
    with l Cons.prems have "e1 = e" and "s' = fst (snd (UnlockMany ev sa locks))" by auto
    with l Some have "0 < length (f # rest)
       \<and> lockEach fuel ev s locks (take 0 (f # rest)) = Some (None, s)
       \<and> Lock fuel ev s ((f # rest) ! 0) = Some (Some e, sa)
       \<and> s' = fst (snd (UnlockMany ev sa (locks @ take 0 (f # rest))))" by simp
    then show ?thesis by blast
  next
    case None
    with l Cons.prems have "lockEach fuel ev sa (locks @ [f]) rest = Some (Some e, s')" by simp
    from Cons.IH[OF this] obtain k s1 s2 where k: "k < length rest"
      and a: "lockEach fuel ev sa (locks @ [f]) (take k rest) = Some (None, s1)"
      and b: "Lock fuel ev s1 (rest ! k) = Some (Some e, s2)"
      and c: "s' = fst (snd (UnlockMany ev s2 ((locks @ [f]) @ take k rest)))" by blast
    from k a b c l None have "Suc k < length (f # rest)
       \<and> lockEach fuel ev s locks (take (Suc k) (f # rest)) = Some (None, s1)
       \<and> Lock fuel ev s1 ((f # rest) ! Suc k) = Some (Some e, s2)
       \<and> s' = fst (snd (UnlockMany ev s2 (locks @ take (Suc k) (f # rest))))" by simp
    then show ?thesis by blast
  qed
qed

lemma sort_take_sort: "sort (take k (sort (xs::string list))) = take k (sort xs)"
  by (simp add: sorted_wrt_take sort_key_id_if_sorted)

lemma UnlockMany_ok_unlocked:
  "fst (UnlockMany ev s xs) = None \<Longrightarrow> \<forall>n \<in> set xs. \<not> locked (fst (snd (UnlockMany ev s xs))) n"
proof -
  assume a: "fst (UnlockMany ev s xs) = None"
  then obtain s1 where u: "unlockEach ev s xs = (None, s1)"
    by (cases "unlockEach ev s xs") (auto simp: UnlockMany_def)
  from unlockEach_ok[OF u] u show ?thesis by (simp add: UnlockMany_def locked_def)
qed

subsection \<open>LockMany returns when nothing is in its way\<close>

text \<open>
  The fuel only matters when a lock file is already there. If none of the names is locked,
  the names are distinct, and the environment has plain faults, one attempt per name is
  enough: \<open>LockMany\<close> returns, with or without an error.
\<close>

lemma lockLoop_returns:
  "plainFaults ev \<Longrightarrow> files s p = None \<Longrightarrow> lockLoop (Suc n) i ev s p \<noteq> None"
  by (auto simp: openExcl_def plainFaults_def split: option.splits sum.splits)

lemma Lock_returns: "plainFaults ev \<Longrightarrow> 0 < fuel \<Longrightarrow> \<not> locked s f \<Longrightarrow> Lock fuel ev s f \<noteq> None"
proof (cases fuel)
  case 0
  assume "0 < fuel" with 0 show ?thesis by simp
next
  case (Suc n)
  assume "plainFaults ev" and "\<not> locked s f"
  then have "lockLoop (Suc n) 0 ev s (lockf f) \<noteq> None"
    by (intro lockLoop_returns) (simp_all add: locked_def)
  with Suc show ?thesis by (simp add: Lock_def del: lockLoop.simps split: option.splits)
qed

lemma lockEach_returns:
  "plainFaults ev \<Longrightarrow> 0 < fuel \<Longrightarrow> distinct rest \<Longrightarrow> \<forall>n \<in> set rest. \<not> locked s n \<Longrightarrow>
     lockEach fuel ev s locks rest \<noteq> None"
proof (induction rest arbitrary: s locks)
  case Nil
  then show ?case by simp
next
  case (Cons f rest)
  from Cons.prems have "Lock fuel ev s f \<noteq> None" by (simp add: Lock_returns)
  then obtain r1 s1 where l: "Lock fuel ev s f = Some (r1, s1)" by auto
  show ?case
  proof (cases r1)
    case None
    have "\<forall>n \<in> set rest. \<not> locked s1 n"
    proof
      fix n assume n: "n \<in> set rest"
      with Cons.prems have "lockf n \<noteq> lockf f" by (auto simp: lockf_inj)
      with Lock_effect[OF l] have "files s1 (lockf n) = files s (lockf n)" by simp
      with n Cons.prems show "\<not> locked s1 n" by (simp add: locked_def)
    qed
    with Cons.prems have "lockEach fuel ev s1 (locks @ [f]) rest \<noteq> None"
      by (intro Cons.IH) simp_all
    with l None show ?thesis by simp
  next
    case (Some e)
    with l show ?thesis by simp
  qed
qed

lemma LockMany_returns:
  "plainFaults ev \<Longrightarrow> 0 < fuel \<Longrightarrow> distinct names \<Longrightarrow> \<forall>n \<in> set names. \<not> locked s n \<Longrightarrow>
     LockMany fuel ev s names \<noteq> None"
  unfolding LockMany_def by (rule lockEach_returns) simp_all

subsection \<open>Concrete runs\<close>

lemmas run_simps = UnlockMany_def Unlock_def osRemove_def lockf_def logEvent_def quiet_def diskOf_def
  locked_def LockMany_def Lock_def createParentIfNotExist_def openExcl_def emptyDisk_def failing_def

subsection \<open>C9: UnlockMany stops at the first unlink that fails\<close>



subsection \<open>C2: the order in which UnlockMany removes the lock files\<close>

text \<open>
  Claim C2 says that \<open>UnlockMany\<close> removes the lock files in reverse lexicographic order of
  the names, the reverse of the order in which \<open>LockMany\<close> took them. The source sorts the
  caller's slice in reverse and then ranges over the unsorted copy, so the lock files go in
  the order of the argument. Run on \<open>["a", "b"]\<close> after \<open>LockMany\<close> locked both:
  \<open>a.lock\<close> is removed before \<open>b.lock\<close>, which is the order of acquisition and not its
  reverse, and the caller's slice comes back as \<open>["b", "a"]\<close>.
\<close>

theorem UnlockMany_unlocks_in_input_order:
  "(case LockMany 1 quiet emptyDisk [''a'', ''b''] of
      None \<Rightarrow> False
    | Some (r, s) \<Rightarrow>
        r = None \<and> created (trace s) = [''a.lock'', ''b.lock'']
        \<and> removed (trace (fst (snd (UnlockMany quiet s [''a'', ''b''])))) = [''a.lock'', ''b.lock'']
        \<and> snd (snd (UnlockMany quiet s [''a'', ''b''])) = [''b'', ''a''])"
  by (simp add: run_simps)

subsection \<open>C3: LockMany\<close>

text \<open>
  Claim C3, as amended. For every list of names, \<open>LockMany\<close> acquires the per-name locks
  in lexicographically sorted order of the input, and when it returns without error every
  name is locked. If acquiring the lock at position \<open>k\<close> of the sorted list fails with
  \<open>e\<close>, then the \<open>k\<close> names before it were acquired in sorted order, \<open>UnlockMany\<close> is run on
  exactly those names, and \<open>e\<close> is returned; when that \<open>UnlockMany\<close> reports no error,
  none of those \<open>k\<close> names remains locked. (The order of the release is left out: it is
  what claim C2 is about.)
\<close>

theorem LockMany_sorted_acquire_release_on_error:
  assumes "LockMany fuel ev s names = Some (r, s')"
  shows "(r = None \<longrightarrow>
            created (trace s') = created (trace s) @ map lockf (sort names)
            \<and> (\<forall>n \<in> set names. locked s' n))
       \<and> (\<forall>e. r = Some e \<longrightarrow>
            (\<exists>k s1 s2. k < length names
               \<and> LockMany fuel ev s (take k (sort names)) = Some (None, s1)
               \<and> created (trace s1) = created (trace s) @ map lockf (take k (sort names))
               \<and> Lock fuel ev s1 (sort names ! k) = Some (Some e, s2)
               \<and> s' = fst (snd (UnlockMany ev s2 (take k (sort names))))
               \<and> (fst (UnlockMany ev s2 (take k (sort names))) = None \<longrightarrow>
                     (\<forall>n \<in> set (take k (sort names)). \<not> locked s' n))))"
proof (cases r)
  case None
  with assms have "lockEach fuel ev s [] (sort names) = Some (None, s')"
    by (simp add: LockMany_def)
  from lockEach_ok[OF this] None show ?thesis by simp
next
  case (Some e)
  with assms have "lockEach fuel ev s [] (sort names) = Some (Some e, s')"
    by (simp add: LockMany_def)
  from lockEach_fail[OF this] obtain k s1 s2 where k: "k < length names"
    and a: "lockEach fuel ev s [] (take k (sort names)) = Some (None, s1)"
    and b: "Lock fuel ev s1 (sort names ! k) = Some (Some e, s2)"
    and c: "s' = fst (snd (UnlockMany ev s2 (take k (sort names))))" by auto
  have a': "LockMany fuel ev s (take k (sort names)) = Some (None, s1)"
    using a by (simp add: LockMany_def sort_take_sort)
  have d: "created (trace s1) = created (trace s) @ map lockf (take k (sort names))"
    using lockEach_ok[OF a] by simp
  have u: "fst (UnlockMany ev s2 (take k (sort names))) = None \<longrightarrow>
             (\<forall>n \<in> set (take k (sort names)). \<not> locked s' n)"
    using UnlockMany_ok_unlocked[of ev s2 "take k (sort names)"] c by simp
  have "\<exists>k s1 s2. k < length names
               \<and> LockMany fuel ev s (take k (sort names)) = Some (None, s1)
               \<and> created (trace s1) = created (trace s) @ map lockf (take k (sort names))
               \<and> Lock fuel ev s1 (sort names ! k) = Some (Some e, s2)
               \<and> s' = fst (snd (UnlockMany ev s2 (take k (sort names))))
               \<and> (fst (UnlockMany ev s2 (take k (sort names))) = None \<longrightarrow>
                     (\<forall>n \<in> set (take k (sort names)). \<not> locked s' n))"
    using k a' d b c u by - (intro exI conjI, assumption+)
  with Some show ?thesis by simp
qed

theorem LockMany_sorted_acquire_release_on_error_witness:
  "LockMany 1 (failing MkParent ''c.lock'' (ErrOther ''mkdir'') quiet) emptyDisk [''c'', ''a'', ''b'']
     = Some (Some (ErrOther ''mkdir''),
             emptyDisk\<lparr>trace := [Created ''a.lock'', Created ''b.lock'', Removed ''a.lock'', Removed ''b.lock'']\<rparr>)
   \<and> (\<exists>k s1 s2. k < length [''c'', ''a'', ''b'']
         \<and> LockMany 1 (failing MkParent ''c.lock'' (ErrOther ''mkdir'') quiet) emptyDisk
               (take k (sort [''c'', ''a'', ''b''])) = Some (None, s1)
         \<and> created (trace s1) = created (trace emptyDisk) @ map lockf (take k (sort [''c'', ''a'', ''b'']))
         \<and> Lock 1 (failing MkParent ''c.lock'' (ErrOther ''mkdir'') quiet) s1 (sort [''c'', ''a'', ''b''] ! k)
             = Some (Some (ErrOther ''mkdir''), s2)
         \<and> emptyDisk\<lparr>trace := [Created ''a.lock'', Created ''b.lock'', Removed ''a.lock'', Removed ''b.lock'']\<rparr>
             = fst (snd (UnlockMany (failing MkParent ''c.lock'' (ErrOther ''mkdir'') quiet) s2
                           (take k (sort [''c'', ''a'', ''b'']))))
         \<and> (fst (UnlockMany (failing MkParent ''c.lock'' (ErrOther ''mkdir'') quiet) s2
                    (take k (sort [''c'', ''a'', ''b'']))) = None \<longrightarrow>
              (\<forall>n \<in> set (take k (sort [''c'', ''a'', ''b''])).
                 \<not> locked (emptyDisk\<lparr>trace := [Created ''a.lock'', Created ''b.lock'',
                                                   Removed ''a.lock'', Removed ''b.lock'']\<rparr>) n)))"
proof -
  have h: "LockMany 1 (failing MkParent ''c.lock'' (ErrOther ''mkdir'') quiet) emptyDisk [''c'', ''a'', ''b'']
     = Some (Some (ErrOther ''mkdir''),
             emptyDisk\<lparr>trace := [Created ''a.lock'', Created ''b.lock'', Removed ''a.lock'', Removed ''b.lock'']\<rparr>)"
    by (simp add: run_simps)
  from LockMany_sorted_acquire_release_on_error[OF h, THEN conjunct2, rule_format, OF refl] h
  show ?thesis by (rule conjI[rotated])
qed

text \<open>
  The claim as stated fails on two counts. With \<open>Lock("c")\<close> failing after \<open>a\<close> and \<open>b\<close>
  were acquired, the locks are released in the order \<open>a\<close>, \<open>b\<close> (not in reverse); and if
  removing \<open>a.lock\<close> fails as well, \<open>UnlockMany\<close> gives up at once and both \<open>a\<close> and \<open>b\<close>
  stay locked although \<open>LockMany\<close> returned the error.
\<close>

theorem LockMany_release_counterexample:
  "(case LockMany 1 (failing MkParent ''c.lock'' (ErrOther ''mkdir'') quiet) emptyDisk [''c'', ''a'', ''b''] of
      Some (Some e, s') \<Rightarrow>
        e = ErrOther ''mkdir'' \<and> created (trace s') = [''a.lock'', ''b.lock'']
        \<and> removed (trace s') = [''a.lock'', ''b.lock'']
    | _ \<Rightarrow> False)
   \<and> (case LockMany 1 (failing Remove ''a.lock'' (ErrOther ''EPERM'')
                        (failing MkParent ''c.lock'' (ErrOther ''mkdir'') quiet)) emptyDisk [''c'', ''a'', ''b''] of
      Some (Some e, s') \<Rightarrow>
        e = ErrOther ''mkdir'' \<and> removed (trace s') = [] \<and> locked s' ''a'' \<and> locked s' ''b''
    | _ \<Rightarrow> False)"
  by (simp add: run_simps)

section \<open>Properties of the codec and of the transactional store\<close>

subsection \<open>Evaluation and the order of parallel results\<close>

lemmas store_simps = ReadDataFile_def SaveDataFile_def keyFor_def osRename_def appendTo_def
  toyCodec_def snapshot_def createBackup_def restore_def delete_def readAll_def readErrors_def
  readKeys_def readObjs_def OpenManyForUpdate_def callerVar_def backupPhase_def savePhase_def
  unlockPhase_def commit_def digitChar_def List.map_filter_def showNat.simps Let_def

lemmas disk_simps = twoFiles_def oneGood_def oneBad_def lockedAB_def heldTwo_def freshTxn_def

lemma set_arrange: "set (arrange cs xs) = set xs"
proof (induction cs xs rule: arrange.induct)
  case (3 c cs x xs)
  let ?ys = "x # xs" and ?i = "c mod length (x # xs)"
  have i: "?i < length ?ys" by simp
  have "set ?ys = set (take ?i ?ys @ ?ys ! ?i # drop (Suc ?i) ?ys)"
    using id_take_nth_drop[OF i] by simp
  with 3 show ?case by (simp del: take_Suc_Cons drop_Suc_Cons nth_Cons' add: Un_commute insert_commute)
qed simp_all



lemma distinct_arrange: "distinct xs \<Longrightarrow> distinct (arrange cs xs)"
proof (induction cs xs rule: arrange.induct)
  case (3 c cs x xs)
  let ?ys = "x # xs" and ?i = "c mod length (x # xs)"
  have i: "?i < length ?ys" by simp
  have eq: "?ys = take ?i ?ys @ ?ys ! ?i # drop (Suc ?i) ?ys"
    by (rule id_take_nth_drop[OF i])
  from "3.prems" have d: "distinct (take ?i ?ys @ ?ys ! ?i # drop (Suc ?i) ?ys)"
    using eq by metis
  then have d1: "distinct (take ?i ?ys @ drop (Suc ?i) ?ys)"
    and d2: "?ys ! ?i \<notin> set (take ?i ?ys @ drop (Suc ?i) ?ys)" by auto
  from "3.IH"[OF d1] d2 show ?case by (simp add: set_arrange del: take_Suc_Cons drop_Suc_Cons nth_Cons')
qed simp_all

lemma map_arrange: "map f (arrange cs xs) = arrange cs (map f xs)"
proof (induction cs xs rule: arrange.induct)
  case (3 c cs x xs)
  let ?ys = "x # xs" and ?i = "c mod length (x # xs)"
  have i: "?i < length ?ys" by simp
  have "map f (arrange (c # cs) ?ys) = f (?ys ! ?i) # map f (arrange cs (take ?i ?ys @ drop (Suc ?i) ?ys))"
    by simp
  also have "\<dots> = (map f ?ys) ! ?i # arrange cs (take ?i (map f ?ys) @ drop (Suc ?i) (map f ?ys))"
    using 3 i by (simp only: nth_map[OF i] take_map drop_map map_append)
  also have "\<dots> = arrange (c # cs) (map f ?ys)" by simp
  finally show ?case .
qed simp_all

subsection \<open>C7: what SaveDataFile writes, ReadDataFile reads\<close>







subsection \<open>C4: the closure acts once\<close>

lemma unlockPhase_called: "called (fst (snd (snd (unlockPhase ev t s c errp v)))) = called t"
  by (simp add: unlockPhase_def Let_def split: prod.splits)

lemma unlockPhase_committed: "committed (fst (snd (snd (unlockPhase ev t s c errp v)))) = committed t"
  by (simp add: unlockPhase_def Let_def split: prod.splits)

lemma commit_called: "called (fst (snd (snd (commit cd ev t s objs c errp))))"
  by (simp add: commit_def Let_def unlockPhase_called split: sum.splits prod.splits)

lemma commit_again:
  "called t \<Longrightarrow> commit cd ev t s objs c errp =
     (Some (if committed t then ErrAlreadyCommitted else ErrAlreadyRolledBack), errp, t, s)"
  by (simp add: commit_def)

lemma commit_committed:
  "\<not> called t \<Longrightarrow> \<not> committed t \<Longrightarrow>
     committed (fst (snd (snd (commit cd ev t s objs c errp)))) =
       (c \<and> (\<exists>bk s1. backupPhase ev (tfiles t) s = Inr (bk, s1)
                \<and> fst (savePhase cd ev (tkeys t) (tfiles t) s1 objs) = []))"
  by (auto simp: commit_def Let_def unlockPhase_committed split: sum.splits prod.splits)

text \<open>
  Claim C4. For every commit closure returned by \<open>OpenForUpdate\<close> or \<open>OpenManyForUpdate\<close>,
  only the first invocation takes effect: every subsequent invocation, with any arguments,
  performs no saves or unlocks and returns \<open>AlreadyCommitted\<close> if the first invocation
  committed, and \<open>AlreadyRolledBack\<close> otherwise.

  Every invocation leaves the closure called; an invocation of a called closure changes
  neither the closure, nor the disk, nor the caller's error variable, and returns the
  sentinel the \<open>committed\<close> flag selects; and after the first invocation of a fresh closure
  that flag says that the invocation was a commit whose backup (if any) was taken and
  whose saves all succeeded.
\<close>

theorem commit_only_first_call_takes_effect:
  "called (fst (snd (snd (commit cd ev t s objs c errp))))
   \<and> (called t \<longrightarrow>
        commit cd ev t s objs c errp =
          (Some (if committed t then ErrAlreadyCommitted else ErrAlreadyRolledBack), errp, t, s))
   \<and> (\<not> called t \<and> \<not> committed t \<longrightarrow>
        committed (fst (snd (snd (commit cd ev t s objs c errp)))) =
          (c \<and> (\<exists>bk s1. backupPhase ev (tfiles t) s = Inr (bk, s1)
                   \<and> fst (savePhase cd ev (tkeys t) (tfiles t) s1 objs) = [])))"
  using commit_called[of cd ev t s objs c errp] commit_again[of t cd ev s objs c errp]
    commit_committed[of t cd ev s objs c errp]
  by blast

theorem commit_only_first_call_takes_effect_witness:
  "called (fst (snd (snd (commit toyCodec quiet freshTxn heldTwo [''x2'', ''y2''] True None))))
   \<and> committed (fst (snd (snd (commit toyCodec quiet freshTxn heldTwo [''x2'', ''y2''] True None))))
   \<and> commit toyCodec quiet
        (fst (snd (snd (commit toyCodec quiet freshTxn heldTwo [''x2'', ''y2''] True None))))
        (snd (snd (snd (commit toyCodec quiet freshTxn heldTwo [''x2'', ''y2''] True None))))
        [''x3'', ''y3''] False (Some None)
       = (Some ErrAlreadyCommitted, Some None,
          fst (snd (snd (commit toyCodec quiet freshTxn heldTwo [''x2'', ''y2''] True None))),
          snd (snd (snd (commit toyCodec quiet freshTxn heldTwo [''x2'', ''y2''] True None))))
   \<and> commit toyCodec quiet
        (fst (snd (snd (commit toyCodec quiet freshTxn heldTwo [''x2'', ''y2''] False None))))
        (snd (snd (snd (commit toyCodec quiet freshTxn heldTwo [''x2'', ''y2''] False None))))
        [''x3'', ''y3''] True None
       = (Some ErrAlreadyRolledBack, None,
          fst (snd (snd (commit toyCodec quiet freshTxn heldTwo [''x2'', ''y2''] False None))),
          snd (snd (snd (commit toyCodec quiet freshTxn heldTwo [''x2'', ''y2''] False None))))"
proof -
  let ?c1 = "commit toyCodec quiet freshTxn heldTwo [''x2'', ''y2''] True None"
  let ?c2 = "commit toyCodec quiet freshTxn heldTwo [''x2'', ''y2''] False None"
  have fresh: "\<not> called freshTxn \<and> \<not> committed freshTxn" by (simp add: freshTxn_def)
  have saved: "backupPhase quiet (tfiles freshTxn) heldTwo
                 = Inr (Some \<lparr>bnames = [''a'', ''b''], originals = [(''a'', ''kkxz''), (''b'', ''kkyz'')]\<rparr>,
                        logEvent (BackupCreated [''a'', ''b''])
                          (heldTwo\<lparr>backups := [\<lparr>bnames = [''a'', ''b''],
                                                 originals = [(''a'', ''kkxz''), (''b'', ''kkyz'')]\<rparr>]\<rparr>))"
    by (simp add: store_simps run_simps heldTwo_def freshTxn_def)
  have ok: "fst (savePhase toyCodec quiet (tkeys freshTxn) (tfiles freshTxn)
                   (logEvent (BackupCreated [''a'', ''b''])
                          (heldTwo\<lparr>backups := [\<lparr>bnames = [''a'', ''b''],
                                                 originals = [(''a'', ''kkxz''), (''b'', ''kkyz'')]\<rparr>]\<rparr>))
                   [''x2'', ''y2'']) = []"
    by (simp add: store_simps run_simps heldTwo_def freshTxn_def)
  note t1 = commit_only_first_call_takes_effect[of toyCodec quiet freshTxn heldTwo "[''x2'', ''y2'']" True None]
  from t1 fresh saved ok have c1: "called (fst (snd (snd ?c1)))" and m1: "committed (fst (snd (snd ?c1)))"
    by blast+
  note t2 = commit_only_first_call_takes_effect[of toyCodec quiet freshTxn heldTwo "[''x2'', ''y2'']" False None]
  from t2 fresh have c2: "called (fst (snd (snd ?c2)))" and m2: "\<not> committed (fst (snd (snd ?c2)))"
    by blast+
  note s1 = commit_only_first_call_takes_effect[of toyCodec quiet "fst (snd (snd ?c1))" "snd (snd (snd ?c1))"
               "[''x3'', ''y3'']" False "Some None"]
  note s2 = commit_only_first_call_takes_effect[of toyCodec quiet "fst (snd (snd ?c2))" "snd (snd (snd ?c2))"
               "[''x3'', ''y3'']" True None]
  from s1 s2 c1 m1 c2 m2 show ?thesis by simp
qed

subsection \<open>C5: rolling back\<close>

text \<open>
  Claim C5, as amended. When the commit closure is first invoked with \<open>do_commit == false\<close>,
  it runs \<open>UnlockMany\<close> on the N names, which releases the locks for all N names when no
  unlink fails (and stops at the first unlink that fails otherwise); the error
  out-parameter is written only when the caller passed a pointer to a nil error, and is
  then set to \<open>RolledBack\<close> if the unlock reported no error and to the unlock's error
  otherwise; if the caller's error pointer already holds a non-nil in-flight error at
  invocation, that error is preserved rather than overwritten with \<open>RolledBack\<close>.
\<close>

theorem commit_rollback_unlocks_and_reports:
  assumes "\<not> called t"
  shows "case UnlockMany ev s (tfiles t) of
           (ue, s', fs') \<Rightarrow>
             commit cd ev t s objs False errp =
               ((case ue of None \<Rightarrow> Some ErrRolledBack | Some e \<Rightarrow> Some e),
                (if errp = Some None
                 then Some (case ue of None \<Rightarrow> Some ErrRolledBack | Some e \<Rightarrow> Some e)
                 else errp),
                t\<lparr>called := True, tfiles := fs'\<rparr>, s')
             \<and> (ue = None \<longrightarrow> (\<forall>n \<in> set (tfiles t). \<not> locked s' n))"
proof (cases "UnlockMany ev s (tfiles t)")
  case (fields ue s' fs')
  have "ue = None \<longrightarrow> (\<forall>n \<in> set (tfiles t). \<not> locked s' n)"
    using UnlockMany_ok_unlocked[of ev s "tfiles t"] fields by simp
  with fields assms show ?thesis
    by (auto simp: commit_def Let_def unlockPhase_def callerVar_def split: option.splits)
qed

theorem commit_rollback_unlocks_and_reports_witness:
  "\<not> called freshTxn
   \<and> commit toyCodec quiet freshTxn heldTwo [''x'', ''y''] False (Some None)
       = (Some ErrRolledBack, Some (Some ErrRolledBack),
          freshTxn\<lparr>called := True, tfiles := [''b'', ''a'']\<rparr>,
          fst (snd (UnlockMany quiet heldTwo [''a'', ''b''])))
   \<and> fst (snd (commit toyCodec quiet freshTxn heldTwo [''x'', ''y''] False (Some (Some (ErrOther ''boom'')))))
       = Some (Some (ErrOther ''boom''))
   \<and> \<not> locked (fst (snd (UnlockMany quiet heldTwo [''a'', ''b'']))) ''a''
   \<and> \<not> locked (fst (snd (UnlockMany quiet heldTwo [''a'', ''b'']))) ''b''"
proof -
  have h: "\<not> called freshTxn" by (simp add: freshTxn_def)
  have f: "tfiles freshTxn = [''a'', ''b'']" by (simp add: freshTxn_def)
  have u: "fst (UnlockMany quiet heldTwo [''a'', ''b'']) = None"
    and v: "snd (snd (UnlockMany quiet heldTwo [''a'', ''b''])) = [''b'', ''a'']"
    by (simp_all add: run_simps heldTwo_def)
  note a = commit_rollback_unlocks_and_reports[OF h, where ev = quiet and s = heldTwo and cd = toyCodec
             and objs = "[''x'', ''y'']" and errp = "Some None"]
  note b = commit_rollback_unlocks_and_reports[OF h, where ev = quiet and s = heldTwo and cd = toyCodec
             and objs = "[''x'', ''y'']" and errp = "Some (Some (ErrOther ''boom''))"]
  from a b h u v show ?thesis
    by (simp add: f split: prod.splits)
qed

text \<open>
  The claim as stated promises that the locks for all N names are released. A complete
  run in an environment where \<open>a.lock\<close> cannot be removed: \<open>OpenManyForUpdate\<close> locks and
  reads \<open>a\<close> and \<open>b\<close>; the rollback then stops at \<open>a.lock\<close>, never tries \<open>b.lock\<close>, and both
  names stay locked; the caller's nil error variable receives the unlink error, not
  \<open>RolledBack\<close>.
\<close>

theorem commit_rollback_counterexample:
  "(case OpenManyForUpdate 1 toyCodec (failing Remove ''a.lock'' (ErrOther ''EPERM'') quiet) twoFiles
           [''a'', ''b''] [[], []] of
      Returned (r, Some t, objs, s, fs) \<Rightarrow>
        r = None \<and> objs = [''x'', ''y''] \<and> locked s ''a'' \<and> locked s ''b''
        \<and> (case commit toyCodec (failing Remove ''a.lock'' (ErrOther ''EPERM'') quiet) t s objs False (Some None) of
              (r', out, t', s') \<Rightarrow>
                r' = Some (ErrOther ''EPERM'') \<and> out = Some (Some (ErrOther ''EPERM''))
                \<and> locked s' ''a'' \<and> locked s' ''b'')
    | _ \<Rightarrow> False)"
  by (simp add: store_simps run_simps twoFiles_def)

subsection \<open>C6: the read phase of OpenManyForUpdate\<close>

lemma fold_update_length:
  "length (fold (\<lambda>(i, r) ks. ks[i := g r]) rs ks) = length ks"
  by (induction rs arbitrary: ks) (auto split: prod.splits)

lemma fold_update_other:
  "i \<notin> fst ` set rs \<Longrightarrow> fold (\<lambda>(i, r) ks. ks[i := g r]) rs ks ! i = ks ! i"
  by (induction rs arbitrary: ks) (auto split: prod.splits)

lemma fold_update_nth:
  "distinct (map fst rs) \<Longrightarrow> (i, r) \<in> set rs \<Longrightarrow> i < length ks \<Longrightarrow>
     fold (\<lambda>(i, r) ks. ks[i := g r]) rs ks ! i = g r"
proof (induction rs arbitrary: ks)
  case Nil
  then show ?case by simp
next
  case (Cons a rs)
  obtain j r' where a: "a = (j, r')" by (cases a)
  show ?case
  proof (cases "(i, r) = a")
    case True
    with a Cons.prems have "i \<notin> fst ` set rs" by auto
    from fold_update_other[OF this, of g "ks[i := g r]"] True a Cons.prems show ?thesis by simp
  next
    case False
    with Cons.prems have m: "(i, r) \<in> set rs" by simp
    from Cons.prems have d: "distinct (map fst rs)" by simp
    from Cons.IH[OF d m, of "ks[j := g r']"] Cons.prems a show ?thesis by simp
  qed
qed

lemma readAll_fst: "map fst (readAll cd ev s fs objs) = arrange (choices ev (trace s)) [0..<length fs]"
  by (simp add: readAll_def map_arrange o_def)

lemma readAll_set:
  "set (readAll cd ev s fs objs) = (\<lambda>i. (i, ReadDataFile cd s (fs ! i) (objs ! i))) ` {0..<length fs}"
  by (simp add: readAll_def set_arrange)

lemma readAll_distinct: "distinct (map fst (readAll cd ev s fs objs))"
  by (simp add: readAll_fst distinct_arrange)

lemma readKeys_length: "length (readKeys n rs) = n"
  by (simp add: readKeys_def fold_update_length)

lemma readKeys_nth:
  assumes "i < length fs"
  shows "readKeys (length fs) (readAll cd ev s fs objs) ! i =
           (case ReadDataFile cd s (fs ! i) (objs ! i) of Inl e \<Rightarrow> None | Inr (k, obj) \<Rightarrow> Some k)"
proof -
  have m: "(i, ReadDataFile cd s (fs ! i) (objs ! i)) \<in> set (readAll cd ev s fs objs)"
    using assms by (simp add: readAll_set)
  show ?thesis
    unfolding readKeys_def
    using fold_update_nth[OF readAll_distinct m, of "replicate (length fs) None"
            "\<lambda>r. case r of Inl e \<Rightarrow> None | Inr (k, obj) \<Rightarrow> Some k"] assms
    by simp
qed

lemma readErrors_set:
  "set (readErrors rs) = {e. \<exists>i. (i, Inl e) \<in> set rs \<and> \<not> isNotExist e}"
  by (induction rs) (auto simp: readErrors_def split: sum.splits if_splits)

lemma readErrors_nonempty:
  "readErrors (readAll cd ev s fs objs) \<noteq> [] \<longleftrightarrow>
     (\<exists>i < length fs. \<exists>e. ReadDataFile cd s (fs ! i) (objs ! i) = Inl e \<and> \<not> isNotExist e)"
proof -
  have "readErrors (readAll cd ev s fs objs) \<noteq> [] \<longleftrightarrow> set (readErrors (readAll cd ev s fs objs)) \<noteq> {}"
    by simp
  also have "\<dots> \<longleftrightarrow> (\<exists>i < length fs. \<exists>e. ReadDataFile cd s (fs ! i) (objs ! i) = Inl e \<and> \<not> isNotExist e)"
  proof
    assume "set (readErrors (readAll cd ev s fs objs)) \<noteq> {}"
    then obtain e i where "(i, Inl e) \<in> set (readAll cd ev s fs objs)" and n: "\<not> isNotExist e"
      unfolding readErrors_set by auto
    then have "i < length fs" and "ReadDataFile cd s (fs ! i) (objs ! i) = Inl e"
      unfolding readAll_set by auto
    with n show "\<exists>i < length fs. \<exists>e. ReadDataFile cd s (fs ! i) (objs ! i) = Inl e \<and> \<not> isNotExist e"
      by blast
  next
    assume "\<exists>i < length fs. \<exists>e. ReadDataFile cd s (fs ! i) (objs ! i) = Inl e \<and> \<not> isNotExist e"
    then obtain i e where i: "i < length fs" and r: "ReadDataFile cd s (fs ! i) (objs ! i) = Inl e"
      and n: "\<not> isNotExist e" by blast
    from i have "(i, ReadDataFile cd s (fs ! i) (objs ! i)) \<in> set (readAll cd ev s fs objs)"
      unfolding readAll_set by simp
    with r n have "e \<in> set (readErrors (readAll cd ev s fs objs))"
      unfolding readErrors_set by auto
    then show "set (readErrors (readAll cd ev s fs objs)) \<noteq> {}" by auto
  qed
  finally show ?thesis .
qed

text \<open>
  Claim C6, as amended. In \<open>OpenManyForUpdate\<close>'s read phase over N names, a \<open>NotFound\<close>
  result for any name is tolerated and yields a nil key for that name (so a later save
  mints a fresh key), while any other read error makes the call run \<open>UnlockMany\<close> on the N
  names, which releases all N locks when no unlink fails, and return an error made of
  the read errors, without returning a commit closure.

  \<open>s1\<close> is the disk once \<open>LockMany\<close> has succeeded. The first part says when the list of
  read errors is not empty; the second is the call's result when it is empty; the third
  its result when it is not.
\<close>

theorem OpenManyForUpdate_read_phase:
  assumes "length fs = length objs"
      and "LockMany fuel ev s fs = Some (None, s1)"
  shows "(readErrors (readAll cd ev s1 fs objs) \<noteq> [] \<longleftrightarrow>
            (\<exists>i < length fs. \<exists>e. ReadDataFile cd s1 (fs ! i) (objs ! i) = Inl e \<and> \<not> isNotExist e))
       \<and> (readErrors (readAll cd ev s1 fs objs) = [] \<longrightarrow>
            (\<exists>t objs'. OpenManyForUpdate fuel cd ev s fs objs = Returned (None, Some t, objs', s1, fs)
               \<and> tfiles t = fs \<and> \<not> called t \<and> \<not> committed t \<and> length (tkeys t) = length fs
               \<and> (\<forall>i < length fs.
                     tkeys t ! i = (case ReadDataFile cd s1 (fs ! i) (objs ! i) of
                                      Inl e \<Rightarrow> None | Inr (k, obj) \<Rightarrow> Some k))))
       \<and> (readErrors (readAll cd ev s1 fs objs) \<noteq> [] \<longrightarrow>
            (\<exists>objs'. OpenManyForUpdate fuel cd ev s fs objs =
                 Returned (Some (ErrReadDataFile (readErrors (readAll cd ev s1 fs objs))), None, objs',
                           fst (snd (UnlockMany ev s1 fs)), rev (sort fs)))
            \<and> (fst (UnlockMany ev s1 fs) = None \<longrightarrow>
                  (\<forall>n \<in> set fs. \<not> locked (fst (snd (UnlockMany ev s1 fs))) n)))"
proof (intro conjI impI)
  show "readErrors (readAll cd ev s1 fs objs) \<noteq> [] \<longleftrightarrow>
            (\<exists>i < length fs. \<exists>e. ReadDataFile cd s1 (fs ! i) (objs ! i) = Inl e \<and> \<not> isNotExist e)"
    by (rule readErrors_nonempty)
next
  assume e: "readErrors (readAll cd ev s1 fs objs) = []"
  let ?t = "\<lparr>tfiles = fs, tkeys = readKeys (length fs) (readAll cd ev s1 fs objs),
             called = False, committed = False\<rparr>"
  have "OpenManyForUpdate fuel cd ev s fs objs =
          Returned (None, Some ?t, readObjs objs (readAll cd ev s1 fs objs), s1, fs)"
    using assms e by (simp add: OpenManyForUpdate_def Let_def)
  moreover have "\<forall>i < length fs.
       tkeys ?t ! i = (case ReadDataFile cd s1 (fs ! i) (objs ! i) of Inl e \<Rightarrow> None | Inr (k, obj) \<Rightarrow> Some k)"
    by (simp add: readKeys_nth)
  moreover have "length (tkeys ?t) = length fs" by (simp add: readKeys_length)
  ultimately show "\<exists>t objs'. OpenManyForUpdate fuel cd ev s fs objs = Returned (None, Some t, objs', s1, fs)
               \<and> tfiles t = fs \<and> \<not> called t \<and> \<not> committed t \<and> length (tkeys t) = length fs
               \<and> (\<forall>i < length fs.
                     tkeys t ! i = (case ReadDataFile cd s1 (fs ! i) (objs ! i) of
                                      Inl e \<Rightarrow> None | Inr (k, obj) \<Rightarrow> Some k))"
    by (intro exI[of _ ?t] exI[of _ "readObjs objs (readAll cd ev s1 fs objs)"]) simp
next
  assume e: "readErrors (readAll cd ev s1 fs objs) \<noteq> []"
  then show "\<exists>objs'. OpenManyForUpdate fuel cd ev s fs objs =
                 Returned (Some (ErrReadDataFile (readErrors (readAll cd ev s1 fs objs))), None, objs',
                           fst (snd (UnlockMany ev s1 fs)), rev (sort fs))"
    using assms by (simp add: OpenManyForUpdate_def Let_def UnlockMany_def split: prod.splits)
next
  assume "fst (UnlockMany ev s1 fs) = None"
  then show "\<forall>n \<in> set fs. \<not> locked (fst (snd (UnlockMany ev s1 fs))) n"
    by (rule UnlockMany_ok_unlocked)
qed

theorem OpenManyForUpdate_read_phase_witness:
  "length [''a'', ''b''] = length [[], []::string]
   \<and> LockMany 1 quiet oneGood [''a'', ''b''] = Some (None, lockedAB oneGood)
   \<and> LockMany 1 quiet oneBad [''a'', ''b''] = Some (None, lockedAB oneBad)
   \<and> ReadDataFile toyCodec (lockedAB oneGood) ''b'' [] = Inl ErrNotExist
   \<and> (\<exists>t objs'. OpenManyForUpdate 1 toyCodec quiet oneGood [''a'', ''b''] [[], []]
                    = Returned (None, Some t, objs', lockedAB oneGood, [''a'', ''b''])
         \<and> tkeys t ! 0 = Some CHR ''k'' \<and> tkeys t ! 1 = None)
   \<and> (\<exists>objs'. OpenManyForUpdate 1 toyCodec quiet oneBad [''a'', ''b''] [[], []]
                    = Returned (Some (ErrReadDataFile [ErrOther ''short'']), None, objs',
                                fst (snd (UnlockMany quiet (lockedAB oneBad) [''a'', ''b''])), [''b'', ''a'']))
   \<and> \<not> locked (fst (snd (UnlockMany quiet (lockedAB oneBad) [''a'', ''b'']))) ''a''
   \<and> \<not> locked (fst (snd (UnlockMany quiet (lockedAB oneBad) [''a'', ''b'']))) ''b''"
proof -
  have len: "length [''a'', ''b''] = length [[], []::string]" by simp
  have lg: "LockMany 1 quiet oneGood [''a'', ''b''] = Some (None, lockedAB oneGood)"
    by (simp add: run_simps disk_simps)
  have lb: "LockMany 1 quiet oneBad [''a'', ''b''] = Some (None, lockedAB oneBad)"
    by (simp add: run_simps disk_simps)
  have rb: "ReadDataFile toyCodec (lockedAB oneGood) ''b'' [] = Inl ErrNotExist"
    and ra: "ReadDataFile toyCodec (lockedAB oneGood) ''a'' [] = Inr (CHR ''k'', ''x'')"
    by (simp_all add: store_simps run_simps disk_simps)
  have eg: "readErrors (readAll toyCodec quiet (lockedAB oneGood) [''a'', ''b''] [[], []]) = []"
    by (simp add: store_simps run_simps disk_simps)
  have eb: "readErrors (readAll toyCodec quiet (lockedAB oneBad) [''a'', ''b''] [[], []]) = [ErrOther ''short'']"
    by (simp add: store_simps run_simps disk_simps)
  have ub: "fst (UnlockMany quiet (lockedAB oneBad) [''a'', ''b'']) = None"
    by (simp add: run_simps disk_simps)
  note g = OpenManyForUpdate_read_phase[OF len lg, where cd = toyCodec, THEN conjunct2, THEN conjunct1,
             rule_format, OF eg]
  note b = OpenManyForUpdate_read_phase[OF len lb, where cd = toyCodec, THEN conjunct2, THEN conjunct2]
  from g obtain t objs' where o: "OpenManyForUpdate 1 toyCodec quiet oneGood [''a'', ''b''] [[], []]
                    = Returned (None, Some t, objs', lockedAB oneGood, [''a'', ''b''])"
     and k: "\<forall>i < length [''a'', ''b''].
               tkeys t ! i = (case ReadDataFile toyCodec (lockedAB oneGood) ([''a'', ''b''] ! i) ([[], []] ! i) of
                                      Inl e \<Rightarrow> None | Inr (k, obj) \<Rightarrow> Some k)"
    by blast
  from k[rule_format, of 0] k[rule_format, of 1] ra rb
  have "tkeys t ! 0 = Some CHR ''k''" and "tkeys t ! 1 = None" by simp_all
  with o have G: "\<exists>t objs'. OpenManyForUpdate 1 toyCodec quiet oneGood [''a'', ''b''] [[], []]
                    = Returned (None, Some t, objs', lockedAB oneGood, [''a'', ''b''])
         \<and> tkeys t ! 0 = Some CHR ''k'' \<and> tkeys t ! 1 = None" by blast
  from b eb ub have B: "(\<exists>objs'. OpenManyForUpdate 1 toyCodec quiet oneBad [''a'', ''b''] [[], []]
                    = Returned (Some (ErrReadDataFile [ErrOther ''short'']), None, objs',
                                fst (snd (UnlockMany quiet (lockedAB oneBad) [''a'', ''b''])), [''b'', ''a'']))
   \<and> \<not> locked (fst (snd (UnlockMany quiet (lockedAB oneBad) [''a'', ''b'']))) ''a''
   \<and> \<not> locked (fst (snd (UnlockMany quiet (lockedAB oneBad) [''a'', ''b'']))) ''b''"
    by simp
  from len lg lb rb G B show ?thesis by blast
qed

text \<open>
  The claim as stated promises that all N locks are released on a read error. With an
  envelope of \<open>a\<close> that is cut short and a lock file \<open>a.lock\<close> that cannot be removed, the
  call returns the read error and no closure, and both \<open>a\<close> and \<open>b\<close> are still locked.
\<close>

theorem OpenManyForUpdate_read_phase_counterexample:
  "(case OpenManyForUpdate 1 toyCodec (failing Remove ''a.lock'' (ErrOther ''EPERM'') quiet) oneBad
           [''a'', ''b''] [[], []] of
      Returned (r, t, objs, s, fs) \<Rightarrow>
        r = Some (ErrReadDataFile [ErrOther ''short'']) \<and> t = None
        \<and> locked s ''a'' \<and> locked s ''b''
    | _ \<Rightarrow> False)"
  by (simp add: store_simps run_simps disk_simps)

subsection \<open>C1: the backup around a commit of several files\<close>














section \<open>Properties of Sync and Free\<close>


subsection \<open>C8: Sync\<close>





lemma collect_items:
  "collect c s list acc = Some fs \<Longrightarrow> set fs \<subseteq> set acc \<union> {i \<in> set list. wanted c s i}"
proof (induction list arbitrary: acc)
  case Nil
  then show ?case by simp
next
  case (Cons item rest)
  have p: "\<And>ys. set (putItem item ys) \<subseteq> insert item (set ys)"
  proof -
    fix ys show "set (putItem item ys) \<subseteq> insert item (set ys)" by (induction ys) auto
  qed
  show ?case
  proof (cases "LocalOnly (FSFile item)")
    case True
    with Cons.prems have "collect c s rest acc = Some fs" by simp
    from Cons.IH[OF this] show ?thesis by auto
  next
    case False
    with Cons.prems obtain fn where fn: "blobPath c (File (FSFile item)) False = Some fn"
      by (auto split: option.splits)
    show ?thesis
    proof (cases "files s fn = None")
      case True
      with Cons.prems False fn have "collect c s rest (putItem item acc) = Some fs" by simp
      from Cons.IH[OF this] p[of acc] False fn True show ?thesis by (auto simp: wanted_def)
    next
      case present: False
      with Cons.prems False fn have "collect c s rest acc = Some fs" by simp
      from Cons.IH[OF this] show ?thesis by auto
    qed
  qed
qed











subsection \<open>C10: Free\<close>









subsection \<open>Sync and Free return\<close>

text \<open>
  Neither function has a loop without a bound: when \<open>GlobFiles\<close> delivers a list and no
  hash on it is too short for \<open>blobPath\<close>, both return.
\<close>

lemma blobPath_defined: "2 \<le> length (HashString c f) \<Longrightarrow> blobPath c f False \<noteq> None"
  by (simp add: blobPath_def Let_def)

lemma freeLoop_returns: "hashOk c list \<Longrightarrow> freeLoop c ev s n list \<noteq> None"
proof (induction list arbitrary: s n)
  case Nil
  then show ?case by simp
next
  case (Cons item rest)
  then have ok: "hashOk c rest" by (simp add: hashOk_def)
  show ?case
  proof (cases "LocalOnly (FSFile item)")
    case True
    with Cons.IH[OF ok] show ?thesis by simp
  next
    case False
    with Cons.prems have "blobPath c (File (FSFile item)) False \<noteq> None"
      by (simp add: hashOk_def blobPath_defined)
    then obtain fn where fn: "blobPath c (File (FSFile item)) False = Some fn" by auto
    obtain r1 s1 where rmv: "osRemove ev s fn = (r1, s1)" by (cases "osRemove ev s fn")
    from Cons.IH[OF ok, of s n] Cons.IH[OF ok, of s1 "Suc n"] False fn rmv show ?thesis
      by (cases r1) auto
  qed
qed

lemma Free_returns:
  "GlobFiles c patterns = Inr list \<Longrightarrow> hashOk c list \<Longrightarrow>
     \<exists>r out s'. Free c ev s patterns = Returned (r, out, s')"
proof -
  assume g: "GlobFiles c patterns = Inr list" and h: "hashOk c list"
  from freeLoop_returns[OF h, of ev s 0] obtain r n s' where "freeLoop c ev s 0 list = Some (r, n, s')"
    by auto
  with g show ?thesis by (cases r) (simp_all add: Free_def)
qed

lemma collect_returns: "hashOk c list \<Longrightarrow> collect c s list acc \<noteq> None"
proof (induction list arbitrary: acc)
  case Nil
  then show ?case by simp
next
  case (Cons item rest)
  then have ok: "hashOk c rest" by (simp add: hashOk_def)
  show ?case
  proof (cases "LocalOnly (FSFile item)")
    case True
    with Cons.IH[OF ok] show ?thesis by simp
  next
    case False
    with Cons.prems have "blobPath c (File (FSFile item)) False \<noteq> None"
      by (simp add: hashOk_def blobPath_defined)
    then obtain fn where fn: "blobPath c (File (FSFile item)) False = Some fn" by auto
    from Cons.IH[OF ok, of acc] Cons.IH[OF ok, of "putItem item acc"] False fn show ?thesis by simp
  qed
qed

lemma downloadFile_returns:
  "blobPath c (File (FSFile li)) False \<noteq> None \<Longrightarrow> downloadFile c ev s li \<noteq> None"
  by (auto simp: downloadFile_def Let_def split: sum.splits option.splits)

lemma downloadAll_returns:
  "\<forall>li \<in> set items. blobPath c (File (FSFile li)) False \<noteq> None \<Longrightarrow> downloadAll c ev s items \<noteq> None"
proof (induction items arbitrary: s)
  case Nil
  then show ?case by simp
next
  case (Cons li rest)
  then have "downloadWorker c ev s li \<noteq> None" by (simp add: downloadWorker_def downloadFile_returns)
  then obtain r s1 where w: "downloadWorker c ev s li = Some (r, s1)" by auto
  from Cons.prems have "\<forall>li \<in> set rest. blobPath c (File (FSFile li)) False \<noteq> None" by simp
  from Cons.IH[OF this, of s1] w show ?case by auto
qed

lemma wanted_blobPath: "wanted c s i \<Longrightarrow> blobPath c (File (FSFile i)) False \<noteq> None"
  by (auto simp: wanted_def split: option.splits)

lemma Sync_returns:
  "GlobFiles c patterns = Inr list \<Longrightarrow> hashOk c list \<Longrightarrow>
     \<exists>r out s'. Sync c ev s patterns = Returned (r, out, s')"
proof -
  assume g: "GlobFiles c patterns = Inr list" and h: "hashOk c list"
  from collect_returns[OF h, of s "[]"] obtain fs where fs: "collect c s list [] = Some fs" by auto
  from collect_items[OF fs] have "\<forall>li \<in> set fs. blobPath c (File (FSFile li)) False \<noteq> None"
    using wanted_blobPath by auto
  then have "\<forall>li \<in> set (arrange (choices ev (trace s)) fs). blobPath c (File (FSFile li)) False \<noteq> None"
    by (simp add: set_arrange)
  from downloadAll_returns[OF this, of ev s] obtain errs s'
    where "downloadAll c ev s (arrange (choices ev (trace s)) fs) = Some (errs, s')" by auto
  with g fs show ?thesis by (simp add: Sync_def)
qed

end
